theory Spec2Isabelle
  imports Complex_Main "HOL-Library.AList"
begin

section \<open>Data model\<close>

text \<open>
  The module under verification is \<^verbatim>\<open>langchain_pinecone/reranker.py\<close>: the class
  \<^verbatim>\<open>PineconeRerank\<close> with the methods \<^verbatim>\<open>_rerank\<close>, \<^verbatim>\<open>_arerank\<close>,
  \<^verbatim>\<open>compress_documents\<close> and \<^verbatim>\<open>acompress_documents\<close>.

  Python objects that the code creates or mutates live in an explicit store, addressed by
  natural numbers. Two kinds of object matter: \<^verbatim>\<open>Document\<close> objects and the
  \<^verbatim>\<open>dict\<close> objects that hold their metadata. A metadata dict is an association list
  in insertion order (as a Python dict is); the values stored in it are immutable trees.
  A Python float is represented by the rational number it denotes. A finer store, in which
  the containers nested in a metadata dict are objects of their own, is defined further
  down; it is the one that the statement about sharing between input and output is made
  over.
\<close>

type_synonym addr = nat

datatype pyval =
    PyNone
  | PyBool bool
  | PyInt int
  | PyFloat rat
  | PyStr string
  | PyList "pyval list"
  | PyDict "(string \<times> pyval) list"

type_synonym py_dict = "(string \<times> pyval) list"

text \<open>A \<^verbatim>\<open>Document\<close>: its text payload and a reference to its metadata dict.\<close>

record document =
  page_content :: string
  metadata :: addr

text \<open>The exceptions that can leave the methods. \<open>RemoteError\<close> stands for whatever the
  Pinecone client raises (network, authentication, malformed response), with its message.\<close>

datatype exn = IndexError | TypeError | AttributeError | RemoteError string

text \<open>The keyword arguments of \<^verbatim>\<open>client.inference.rerank(...)\<close>.\<close>

record rerank_request =
  req_model :: string
  req_query :: string
  req_documents :: "string list"
  req_top_n :: "int option"
  req_return_documents :: bool
  req_parameters :: "(string \<times> string) list"

text \<open>One entry of \<^verbatim>\<open>results.data\<close>, and the result object itself.\<close>

record rerank_item =
  index :: int
  score :: rat

record rerank_result =
  data :: "rerank_item list"

text \<open>
  What the call \<^verbatim>\<open>self.client.inference.rerank(...)\<close> evaluates to when it does not
  raise. A synchronous client hands back the result object itself; an asynchronous client
  hands back an awaitable, which yields a result object or raises once it is awaited.
\<close>

datatype call_value =
    ResultObject rerank_result
  | Awaitable "exn + rerank_result"

text \<open>The fields of \<^verbatim>\<open>PineconeRerank\<close>. The client is given by its behaviour: the
  outcome of a rerank call for each request.\<close>

record pinecone_rerank =
  client :: "rerank_request \<Rightarrow> exn + call_value"
  model :: string
  top_n :: "int option"
  truncation :: string

text \<open>
  The program state: the compressor object \<open>this\<close> (Python's \<^verbatim>\<open>self\<close>), the store
  of Document objects and of dict objects, the allocation pointer (every address below
  \<open>next_addr\<close> is in use, every address from it on is free), and the log of the rerank
  requests sent to the remote client so far.
\<close>

record state =
  this :: pinecone_rerank
  docs_at :: "addr \<Rightarrow> document"
  dicts_at :: "addr \<Rightarrow> py_dict"
  next_addr :: addr
  requests :: "rerank_request list"

section \<open>Python primitives used by the module\<close>

text \<open>\<^verbatim>\<open>xs[i]\<close> on a sequence of length \<open>n\<close>: the positions are \<open>0\<close> to \<open>n - 1\<close>, the
  indices \<open>- n\<close> to \<open>- 1\<close> count from the end, and every other index raises
  \<^verbatim>\<open>IndexError\<close>.\<close>

definition getitem :: "'a list \<Rightarrow> int \<Rightarrow> exn + 'a" where
  "getitem xs i =
     (if 0 \<le> i \<and> i < int (length xs) then Inr (xs ! nat i)
      else if i < 0 \<and> - int (length xs) \<le> i then Inr (xs ! nat (i + int (length xs)))
      else Inl IndexError)"

text \<open>\<^verbatim>\<open>d[k] = v\<close> on the dict object at address \<open>a\<close>: an existing key keeps its place
  and gets the new value, a new key is appended.\<close>

definition setitem :: "addr \<Rightarrow> string \<Rightarrow> pyval \<Rightarrow> state \<Rightarrow> state" where
  "setitem a k v s = s\<lparr>dicts_at := (dicts_at s)(a := AList.update k v (dicts_at s a))\<rparr>"

text \<open>\<^verbatim>\<open>copy.deepcopy(d)\<close> of the dict object at address \<open>a\<close>: a new dict object with
  equal contents. In this store the values are immutable trees, so there is nothing below
  the dict to copy; \<open>deepcopy_heap\<close> further down copies nested containers as well.\<close>

definition deepcopy :: "addr \<Rightarrow> state \<Rightarrow> addr \<times> state" where
  "deepcopy a s =
     (next_addr s,
      s\<lparr>dicts_at := (dicts_at s)(next_addr s := dicts_at s a),
        next_addr := Suc (next_addr s)\<rparr>)"

text \<open>The constructor call \<^verbatim>\<open>Document(text, metadata=m)\<close>: a new Document object.\<close>

definition Document :: "string \<Rightarrow> addr \<Rightarrow> state \<Rightarrow> addr \<times> state" where
  "Document text m s =
     (next_addr s,
      s\<lparr>docs_at := (docs_at s)(next_addr s := \<lparr>page_content = text, metadata = m\<rparr>),
        next_addr := Suc (next_addr s)\<rparr>)"

text \<open>\<^verbatim>\<open>await v\<close>: an awaitable yields its outcome, anything else is a
  \<^verbatim>\<open>TypeError\<close> (``object can't be used in 'await' expression'').\<close>

fun await :: "call_value \<Rightarrow> exn + rerank_result" where
  "await (Awaitable r) = r"
| "await (ResultObject r) = Inl TypeError"

text \<open>The attribute access \<^verbatim>\<open>results.data\<close> on what a call returned: a result object
  has the attribute, an awaitable that was never awaited has not.\<close>

fun get_data :: "call_value \<Rightarrow> exn + rerank_item list" where
  "get_data (ResultObject r) = Inr (data r)"
| "get_data (Awaitable r) = Inl AttributeError"

section \<open>The methods of PineconeRerank\<close>

text \<open>The argument type \<^verbatim>\<open>Union[str, Document]\<close> of \<^verbatim>\<open>_rerank\<close>.\<close>

datatype str_or_document = Str string | Doc addr

text \<open>
  \<^verbatim>\<open>_rerank\<close>, lines 45--55: the texts are collected by the list comprehension, the
  request is sent to the client (it is appended to the log) and what the call evaluates
  to, a value or an exception, is handed back.
\<close>

definition rerank ::
  "str_or_document list \<Rightarrow> string \<Rightarrow> state \<Rightarrow> (exn + call_value) \<times> state" where
  "rerank documents query s =
     (let docs = map (\<lambda>doc. case doc of Doc a \<Rightarrow> page_content (docs_at s a) | Str t \<Rightarrow> t)
                   documents;
          req = \<lparr>req_model = model (this s),
                 req_query = query,
                 req_documents = docs,
                 req_top_n = top_n (this s),
                 req_return_documents = True,
                 req_parameters = [(''truncate'', truncation (this s))]\<rparr>
      in (client (this s) req, s\<lparr>requests := requests s @ [req]\<rparr>))"

text \<open>\<^verbatim>\<open>_arerank\<close>, lines 69--79: the same call, whose value is awaited.\<close>

definition arerank ::
  "str_or_document list \<Rightarrow> string \<Rightarrow> state \<Rightarrow> (exn + rerank_result) \<times> state" where
  "arerank documents query s =
     (let docs = map (\<lambda>doc. case doc of Doc a \<Rightarrow> page_content (docs_at s a) | Str t \<Rightarrow> t)
                   documents;
          req = \<lparr>req_model = model (this s),
                 req_query = query,
                 req_documents = docs,
                 req_top_n = top_n (this s),
                 req_return_documents = True,
                 req_parameters = [(''truncate'', truncation (this s))]\<rparr>
      in (case client (this s) req of
            Inl e \<Rightarrow> Inl e
          | Inr v \<Rightarrow> await v,
          s\<lparr>requests := requests s @ [req]\<rparr>))"

text \<open>
  The loop of lines 103--107 of \<^verbatim>\<open>compress_documents\<close>, over the remaining entries of
  \<^verbatim>\<open>results.data\<close>, with the list \<open>compressed\<close> built so far. \<open>rnd\<close> is Python's
  built-in \<^verbatim>\<open>round(x, ndigits)\<close> on floats.
\<close>

fun compress_loop ::
  "(rat \<Rightarrow> int \<Rightarrow> rat) \<Rightarrow> addr list \<Rightarrow> rerank_item list \<Rightarrow> addr list \<Rightarrow> state
     \<Rightarrow> (exn + addr list) \<times> state" where
  "compress_loop rnd documents [] compressed s = (Inr compressed, s)"
| "compress_loop rnd documents (res # rest) compressed s =
     (case getitem documents (index res) of
        Inl e \<Rightarrow> (Inl e, s)
      | Inr doc \<Rightarrow>
          (let (m, s1) = deepcopy (metadata (docs_at s doc)) s;
               (doc_copy, s2) = Document (page_content (docs_at s doc)) m s1;
               s3 = setitem (metadata (docs_at s2 doc_copy)) ''relevance_score''
                      (PyFloat (rnd (score res) 4)) s2
           in compress_loop rnd documents rest (compressed @ [doc_copy]) s3))"

text \<open>\<^verbatim>\<open>compress_documents\<close>, lines 98--108.\<close>

definition compress_documents ::
  "(rat \<Rightarrow> int \<Rightarrow> rat) \<Rightarrow> addr list \<Rightarrow> string \<Rightarrow> state \<Rightarrow> (exn + addr list) \<times> state" where
  "compress_documents rnd documents query s =
     (if length documents = 0 then (Inr [], s)
      else
        (case rerank (map Doc documents) query s of
           (Inl e, s1) \<Rightarrow> (Inl e, s1)
         | (Inr results, s1) \<Rightarrow>
             (case get_data results of
                Inl e \<Rightarrow> (Inl e, s1)
              | Inr entries \<Rightarrow> compress_loop rnd documents entries [] s1)))"

text \<open>The loop of lines 132--136 of \<^verbatim>\<open>acompress_documents\<close>.\<close>

fun acompress_loop ::
  "(rat \<Rightarrow> int \<Rightarrow> rat) \<Rightarrow> addr list \<Rightarrow> rerank_item list \<Rightarrow> addr list \<Rightarrow> state
     \<Rightarrow> (exn + addr list) \<times> state" where
  "acompress_loop rnd documents [] compressed s = (Inr compressed, s)"
| "acompress_loop rnd documents (res # rest) compressed s =
     (case getitem documents (index res) of
        Inl e \<Rightarrow> (Inl e, s)
      | Inr doc \<Rightarrow>
          (let (m, s1) = deepcopy (metadata (docs_at s doc)) s;
               (doc_copy, s2) = Document (page_content (docs_at s doc)) m s1;
               s3 = setitem (metadata (docs_at s2 doc_copy)) ''relevance_score''
                      (PyFloat (rnd (score res) 4)) s2
           in acompress_loop rnd documents rest (compressed @ [doc_copy]) s3))"

text \<open>\<^verbatim>\<open>acompress_documents\<close>, lines 127--137.\<close>

definition acompress_documents ::
  "(rat \<Rightarrow> int \<Rightarrow> rat) \<Rightarrow> addr list \<Rightarrow> string \<Rightarrow> state \<Rightarrow> (exn + addr list) \<times> state" where
  "acompress_documents rnd documents query s =
     (if length documents = 0 then (Inr [], s)
      else
        (case arerank (map Doc documents) query s of
           (Inl e, s1) \<Rightarrow> (Inl e, s1)
         | (Inr results, s1) \<Rightarrow> acompress_loop rnd documents (data results) [] s1))"

section \<open>Auxiliary definitions\<close>

text \<open>
  Well-formedness of an input sequence: every Document in it, and its metadata dict, is an
  object that exists in the store (Python has no dangling references).
\<close>

definition allocated :: "state \<Rightarrow> addr list \<Rightarrow> bool" where
  "allocated s documents =
     list_all (\<lambda>a. a < next_addr s \<and> metadata (docs_at s a) < next_addr s) documents"

text \<open>The state after one pass through the loop body, for the entry \<open>res\<close> whose index
  resolved to the Document \<open>doc\<close>.\<close>

definition after_entry :: "(rat \<Rightarrow> int \<Rightarrow> rat) \<Rightarrow> state \<Rightarrow> addr \<Rightarrow> rerank_item \<Rightarrow> state" where
  "after_entry rnd s doc res =
     setitem (next_addr s) ''relevance_score'' (PyFloat (rnd (score res) 4))
       (snd (Document (page_content (docs_at s doc)) (next_addr s)
          (snd (deepcopy (metadata (docs_at s doc)) s))))"

text \<open>\<^verbatim>\<open>doc.metadata\<close> of the Document at address \<open>a\<close>, as a value.\<close>

definition metadata_of :: "state \<Rightarrow> addr \<Rightarrow> py_dict" where
  "metadata_of s a = dicts_at s (metadata (docs_at s a))"

text \<open>The bound the specification names: the smaller of the configured \<^verbatim>\<open>top_n\<close> (when
  there is one) and the number of input documents.\<close>

definition result_limit :: "pinecone_rerank \<Rightarrow> nat \<Rightarrow> nat" where
  "result_limit self n = (case top_n self of None \<Rightarrow> n | Some k \<Rightarrow> min (nat k) n)"

text \<open>
  An instance of \<open>rnd\<close> for the examples: rounding of the exact value to \<open>n\<close> decimal
  places, ties to even. The theorems below hold for every \<open>rnd\<close>.
\<close>

definition round_half_even :: "rat \<Rightarrow> int" where
  "round_half_even x =
     (let f = \<lfloor>x\<rfloor>; d = x - of_int f
      in if d < 1 / 2 then f else if 1 / 2 < d then f + 1 else if even f then f else f + 1)"

definition round_exact :: "rat \<Rightarrow> int \<Rightarrow> rat" where
  "round_exact x n =
     (if 0 \<le> n then of_int (round_half_even (x * 10 ^ nat n)) / 10 ^ nat n
      else of_int (round_half_even (x / 10 ^ nat (- n))) * 10 ^ nat (- n))"

text \<open>
  An example state: a compressor with \<^verbatim>\<open>top_n = 2\<close> around the client \<open>c\<close>, and three
  Documents (addresses 0, 2, 4) with their metadata dicts (addresses 1, 3, 5). The third
  Document already carries a \<^verbatim>\<open>relevance_score\<close>.
\<close>

definition example_state :: "(rerank_request \<Rightarrow> exn + call_value) \<Rightarrow> state" where
  "example_state c =
     \<lparr>this = \<lparr>client = c, model = ''pinecone-rerank-v0'', top_n = Some 2,
               truncation = ''END''\<rparr>,
      docs_at = (\<lambda>a. \<lparr>page_content = [], metadata = 0\<rparr>)
        (0 := \<lparr>page_content = ''alpha'', metadata = 1\<rparr>,
         2 := \<lparr>page_content = ''beta'', metadata = 3\<rparr>,
         4 := \<lparr>page_content = ''gamma'', metadata = 5\<rparr>),
      dicts_at = (\<lambda>a. [])
        (1 := [(''source'', PyStr ''a.txt'')],
         3 := [],
         5 := [(''relevance_score'', PyFloat (9 / 10)), (''page'', PyInt 7)]),
      next_addr = 6,
      requests = []\<rparr>"

text \<open>Example clients: a synchronous one, an asynchronous one with the same response, one
  that raises, one that reports an index outside the input, and one that ignores
  \<^verbatim>\<open>top_n\<close> and returns an entry for each of three documents.\<close>

definition sync_client :: "rerank_request \<Rightarrow> exn + call_value" where
  "sync_client req =
     Inr (ResultObject \<lparr>data = [\<lparr>index = 2, score = 1 / 3\<rparr>, \<lparr>index = 0, score = 1 / 32\<rparr>]\<rparr>)"

definition async_client :: "rerank_request \<Rightarrow> exn + call_value" where
  "async_client req =
     Inr (Awaitable (Inr \<lparr>data = [\<lparr>index = 2, score = 1 / 3\<rparr>, \<lparr>index = 0, score = 1 / 32\<rparr>]\<rparr>))"

definition failing_client :: "rerank_request \<Rightarrow> exn + call_value" where
  "failing_client req = Inl (RemoteError ''503 Service Unavailable'')"

definition stray_client :: "rerank_request \<Rightarrow> exn + call_value" where
  "stray_client req =
     Inr (ResultObject \<lparr>data = [\<lparr>index = 1, score = 1 / 3\<rparr>, \<lparr>index = 3, score = 1 / 32\<rparr>]\<rparr>)"

definition lavish_client :: "rerank_request \<Rightarrow> exn + call_value" where
  "lavish_client req =
     Inr (ResultObject \<lparr>data = [\<lparr>index = 2, score = 1 / 3\<rparr>, \<lparr>index = 0, score = 1 / 3\<rparr>,
                                \<lparr>index = 1, score = 1 / 32\<rparr>]\<rparr>)"


section \<open>A finer store: containers nested in metadata\<close>

text \<open>
  In the store above the values held by a metadata dict are immutable trees. That is enough
  for what the output contains, but it cannot express that two dicts share a mutable value,
  which is what \<^verbatim>\<open>copy.deepcopy\<close> on line 105 is there to prevent. The finer store makes
  every container an object of its own: a value is an atom or a reference to a container
  object, and a container object is a dict or a list of values. Document objects and
  container objects have their own address spaces.
\<close>

datatype hval = HNone | HBool bool | HInt int | HFloat rat | HStr string | HRef addr

datatype hobj = HDict "(string \<times> hval) list" | HList "hval list"

record heap_state =
  h_this :: pinecone_rerank
  h_docs_at :: "addr \<Rightarrow> document"
  h_next_doc :: addr
  h_objs_at :: "addr \<Rightarrow> hobj"
  h_next_obj :: addr
  h_requests :: "rerank_request list"

text \<open>Renaming of references: every address is moved up by \<open>k\<close>.\<close>

fun shift_val :: "nat \<Rightarrow> hval \<Rightarrow> hval" where
  "shift_val k (HRef a) = HRef (a + k)"
| "shift_val k v = v"

fun shift_obj :: "nat \<Rightarrow> hobj \<Rightarrow> hobj" where
  "shift_obj k (HDict kvs) = HDict (map (\<lambda>(key, v). (key, shift_val k v)) kvs)"
| "shift_obj k (HList vs) = HList (map (shift_val k) vs)"

text \<open>
  \<^verbatim>\<open>copy.deepcopy(x)\<close> for the container at address \<open>a\<close>. With \<open>n\<close> containers in the
  store, the container at \<open>b\<close> is copied to the new address \<open>b + n\<close>, and the references in
  the copy are renamed in the same way. The result is the copy of \<open>a\<close>: a graph of new
  objects of the same shape as the graph reachable from \<open>a\<close>, with the same atoms, in which
  shared containers stay shared and cycles stay cycles, as the memo of \<^verbatim>\<open>deepcopy\<close>
  arranges. The copies of containers that \<open>a\<close> does not reach are referred to by nothing.
\<close>

definition deepcopy_heap :: "addr \<Rightarrow> heap_state \<Rightarrow> addr \<times> heap_state" where
  "deepcopy_heap a s =
     (let n = h_next_obj s
      in (a + n,
          s\<lparr>h_objs_at := (\<lambda>b. if n \<le> b \<and> b < 2 * n then shift_obj n (h_objs_at s (b - n))
                                else h_objs_at s b),
            h_next_obj := 2 * n\<rparr>))"

text \<open>The constructor call \<^verbatim>\<open>Document(text, metadata=m)\<close>.\<close>

definition Document_heap :: "string \<Rightarrow> addr \<Rightarrow> heap_state \<Rightarrow> addr \<times> heap_state" where
  "Document_heap text m s =
     (h_next_doc s,
      s\<lparr>h_docs_at := (h_docs_at s)(h_next_doc s := \<lparr>page_content = text, metadata = m\<rparr>),
        h_next_doc := Suc (h_next_doc s)\<rparr>)"

text \<open>\<^verbatim>\<open>x[k] = v\<close> with a string key: a store into a dict; on a list it is a
  \<^verbatim>\<open>TypeError\<close>.\<close>

fun set_entry :: "string \<Rightarrow> hval \<Rightarrow> hobj \<Rightarrow> hobj" where
  "set_entry k v (HDict kvs) = HDict (AList.update k v kvs)"
| "set_entry k v (HList vs) = HList vs"

definition setitem_heap :: "addr \<Rightarrow> string \<Rightarrow> hval \<Rightarrow> heap_state \<Rightarrow> exn + heap_state" where
  "setitem_heap a k v s =
     (case h_objs_at s a of
        HDict kvs \<Rightarrow> Inr (s\<lparr>h_objs_at := (h_objs_at s)(a := HDict (AList.update k v kvs))\<rparr>)
      | HList vs \<Rightarrow> Inl TypeError)"

text \<open>\<^verbatim>\<open>_rerank\<close> over the finer store.\<close>

definition rerank_heap ::
  "str_or_document list \<Rightarrow> string \<Rightarrow> heap_state \<Rightarrow> (exn + call_value) \<times> heap_state" where
  "rerank_heap documents query s =
     (let docs = map (\<lambda>doc. case doc of Doc a \<Rightarrow> page_content (h_docs_at s a) | Str t \<Rightarrow> t)
                   documents;
          req = \<lparr>req_model = model (h_this s),
                 req_query = query,
                 req_documents = docs,
                 req_top_n = top_n (h_this s),
                 req_return_documents = True,
                 req_parameters = [(''truncate'', truncation (h_this s))]\<rparr>
      in (client (h_this s) req, s\<lparr>h_requests := h_requests s @ [req]\<rparr>))"

text \<open>The loop of lines 103--107 and \<^verbatim>\<open>compress_documents\<close>, lines 98--108, over the
  finer store: the same translation of the source as above, statement by statement.\<close>

fun compress_loop_heap ::
  "(rat \<Rightarrow> int \<Rightarrow> rat) \<Rightarrow> addr list \<Rightarrow> rerank_item list \<Rightarrow> addr list \<Rightarrow> heap_state
     \<Rightarrow> (exn + addr list) \<times> heap_state" where
  "compress_loop_heap rnd documents [] compressed s = (Inr compressed, s)"
| "compress_loop_heap rnd documents (res # rest) compressed s =
     (case getitem documents (index res) of
        Inl e \<Rightarrow> (Inl e, s)
      | Inr doc \<Rightarrow>
          (let (m, s1) = deepcopy_heap (metadata (h_docs_at s doc)) s;
               (doc_copy, s2) = Document_heap (page_content (h_docs_at s doc)) m s1
           in case setitem_heap (metadata (h_docs_at s2 doc_copy)) ''relevance_score''
                     (HFloat (rnd (score res) 4)) s2 of
                Inl e \<Rightarrow> (Inl e, s2)
              | Inr s3 \<Rightarrow> compress_loop_heap rnd documents rest (compressed @ [doc_copy]) s3))"

definition compress_documents_heap ::
  "(rat \<Rightarrow> int \<Rightarrow> rat) \<Rightarrow> addr list \<Rightarrow> string \<Rightarrow> heap_state
     \<Rightarrow> (exn + addr list) \<times> heap_state" where
  "compress_documents_heap rnd documents query s =
     (if length documents = 0 then (Inr [], s)
      else
        (case rerank_heap (map Doc documents) query s of
           (Inl e, s1) \<Rightarrow> (Inl e, s1)
         | (Inr results, s1) \<Rightarrow>
             (case get_data results of
                Inl e \<Rightarrow> (Inl e, s1)
              | Inr entries \<Rightarrow> compress_loop_heap rnd documents entries [] s1)))"

text \<open>The references held by a value and by a container, and the containers reachable from
  the container at \<open>a\<close> (itself included).\<close>

fun refs_val :: "hval \<Rightarrow> addr list" where
  "refs_val (HRef a) = [a]"
| "refs_val v = []"

fun refs_obj :: "hobj \<Rightarrow> addr list" where
  "refs_obj (HDict kvs) = concat (map (\<lambda>entry. refs_val (snd entry)) kvs)"
| "refs_obj (HList vs) = concat (map refs_val vs)"

inductive_set reach :: "heap_state \<Rightarrow> addr \<Rightarrow> addr set"
  for s :: heap_state and a :: addr where
  reach_self: "a \<in> reach s a"
| reach_step: "b \<in> reach s a \<Longrightarrow> c \<in> set (refs_obj (h_objs_at s b)) \<Longrightarrow> c \<in> reach s a"

fun is_dict :: "hobj \<Rightarrow> bool" where
  "is_dict (HDict kvs) = True"
| "is_dict (HList vs) = False"

text \<open>
  Well-formedness of the finer store for an input sequence: every input Document exists,
  its metadata is a dict that exists, and no container holds a reference to an address
  that is not in use.
\<close>

definition closed_heap :: "heap_state \<Rightarrow> addr list \<Rightarrow> bool" where
  "closed_heap s documents =
     (list_all (\<lambda>d. d < h_next_doc s \<and> metadata (h_docs_at s d) < h_next_obj s \<and>
                   is_dict (h_objs_at s (metadata (h_docs_at s d)))) documents \<and>
      list_all (\<lambda>a. list_all (\<lambda>c. c < h_next_obj s) (refs_obj (h_objs_at s a)))
        [0..<h_next_obj s])"

text \<open>The state after one pass through the loop body over the finer store.\<close>

definition after_entry_heap ::
  "(rat \<Rightarrow> int \<Rightarrow> rat) \<Rightarrow> heap_state \<Rightarrow> addr \<Rightarrow> rerank_item \<Rightarrow> heap_state" where
  "after_entry_heap rnd s doc res =
     (let (m, s1) = deepcopy_heap (metadata (h_docs_at s doc)) s;
          (doc_copy, s2) = Document_heap (page_content (h_docs_at s doc)) m s1
      in s2\<lparr>h_objs_at := (h_objs_at s2)(m :=
           set_entry ''relevance_score'' (HFloat (rnd (score res) 4)) (h_objs_at s2 m))\<rparr>)"

text \<open>An example over the finer store: the first Document's metadata holds a list.\<close>

definition example_heap :: "(rerank_request \<Rightarrow> exn + call_value) \<Rightarrow> heap_state" where
  "example_heap c =
     \<lparr>h_this = \<lparr>client = c, model = ''pinecone-rerank-v0'', top_n = Some 2,
                 truncation = ''END''\<rparr>,
      h_docs_at = (\<lambda>a. \<lparr>page_content = [], metadata = 0\<rparr>)
        (0 := \<lparr>page_content = ''alpha'', metadata = 0\<rparr>,
         1 := \<lparr>page_content = ''beta'', metadata = 1\<rparr>,
         2 := \<lparr>page_content = ''gamma'', metadata = 2\<rparr>),
      h_next_doc = 3,
      h_objs_at = (\<lambda>a. HDict [])
        (0 := HDict [(''source'', HStr ''a.txt''), (''tags'', HRef 3)],
         1 := HDict [],
         2 := HDict [(''relevance_score'', HFloat (9 / 10)), (''page'', HInt 7)],
         3 := HList [HStr ''x'', HStr ''y'']),
      h_next_obj = 4,
      h_requests = []\<rparr>"

section \<open>Auxiliary lemmas\<close>

lemma getitem_mem: "getitem xs i = Inr x \<Longrightarrow> x \<in> set xs"
  by (auto simp: getitem_def Let_def split: if_splits)

lemma getitem_error: "getitem xs i = Inl e \<Longrightarrow> e = IndexError"
  by (auto simp: getitem_def Let_def split: if_splits)

lemma getitem_nonneg: "getitem xs i = Inr x \<Longrightarrow> 0 \<le> i \<Longrightarrow> x = xs ! nat i"
  by (auto simp: getitem_def Let_def split: if_splits)

lemma getitem_valid: "0 \<le> i \<Longrightarrow> i < int (length xs) \<Longrightarrow> getitem xs i = Inr (xs ! nat i)"
  by (simp add: getitem_def)

lemma getitem_beyond: "int (length xs) \<le> i \<Longrightarrow> getitem xs i = Inl IndexError"
  by (simp add: getitem_def)

lemma after_entry_simps:
  "next_addr (after_entry rnd s doc res) = Suc (Suc (next_addr s))"
  "this (after_entry rnd s doc res) = this s"
  "requests (after_entry rnd s doc res) = requests s"
  "docs_at (after_entry rnd s doc res) =
     (docs_at s)(Suc (next_addr s) :=
        \<lparr>page_content = page_content (docs_at s doc), metadata = next_addr s\<rparr>)"
  "dicts_at (after_entry rnd s doc res) =
     (dicts_at s)(next_addr s :=
        AList.update ''relevance_score'' (PyFloat (rnd (score res) 4))
          (dicts_at s (metadata (docs_at s doc))))"
  by (simp_all add: after_entry_def deepcopy_def Document_def setitem_def)

lemma compress_loop_Cons:
  "getitem documents (index res) = Inr doc \<Longrightarrow>
   compress_loop rnd documents (res # rest) compressed s =
     compress_loop rnd documents rest (compressed @ [Suc (next_addr s)])
       (after_entry rnd s doc res)"
  by (simp add: after_entry_def deepcopy_def Document_def setitem_def Let_def)

lemma allocated_after_entry:
  "allocated s documents \<Longrightarrow> allocated (after_entry rnd s doc res) documents"
  by (auto simp: allocated_def after_entry_simps list_all_iff)

text \<open>The loop only allocates: what was in the store before is still there, unchanged,
  and neither the compressor object nor the request log is touched.\<close>

lemma compress_loop_frame:
  "compress_loop rnd documents entries compressed s = (r, s') \<Longrightarrow>
     next_addr s \<le> next_addr s' \<and> this s' = this s \<and> requests s' = requests s \<and>
     (\<forall>a. a < next_addr s \<longrightarrow> docs_at s' a = docs_at s a \<and> dicts_at s' a = dicts_at s a)"
proof (induction entries arbitrary: compressed s)
  case Nil
  then show ?case by simp
next
  case (Cons res rest)
  show ?case
  proof (cases "getitem documents (index res)")
    case (Inl e)
    with Cons.prems show ?thesis by simp
  next
    case (Inr doc)
    with Cons.prems
    have "compress_loop rnd documents rest (compressed @ [Suc (next_addr s)])
            (after_entry rnd s doc res) = (r, s')"
      by (simp only: compress_loop_Cons)
    from Cons.IH [OF this] show ?thesis
      by (auto simp: after_entry_simps)
  qed
qed

lemma compress_loop_length:
  "compress_loop rnd documents entries compressed s = (Inr out, s') \<Longrightarrow>
     length out = length compressed + length entries"
proof (induction entries arbitrary: compressed s)
  case Nil
  then show ?case by simp
next
  case (Cons res rest)
  from Cons.prems obtain doc where doc: "getitem documents (index res) = Inr doc"
    by (cases "getitem documents (index res)") auto
  with Cons.prems
  have "compress_loop rnd documents rest (compressed @ [Suc (next_addr s)])
          (after_entry rnd s doc res) = (Inr out, s')"
    by (simp only: compress_loop_Cons)
  from Cons.IH [OF this] show ?case by simp
qed

text \<open>The loop in closed form: entry \<open>i\<close> gets the dict at address \<open>next_addr s + 2 * i\<close>
  and the Document at the address after it.\<close>

lemma compress_loop_result:
  "allocated s documents \<Longrightarrow>
   compress_loop rnd documents entries compressed s = (Inr out, s') \<Longrightarrow>
     out = compressed @ map (\<lambda>i. next_addr s + 2 * i + 1) [0..<length entries] \<and>
     next_addr s' = next_addr s + 2 * length entries \<and>
     (\<forall>i<length entries. \<exists>doc.
        getitem documents (index (entries ! i)) = Inr doc \<and>
        docs_at s' (next_addr s + 2 * i + 1) =
          \<lparr>page_content = page_content (docs_at s doc), metadata = next_addr s + 2 * i\<rparr> \<and>
        dicts_at s' (next_addr s + 2 * i) =
          AList.update ''relevance_score'' (PyFloat (rnd (score (entries ! i)) 4))
            (dicts_at s (metadata (docs_at s doc))))"
proof (induction entries arbitrary: compressed s)
  case Nil
  then show ?case by simp
next
  case (Cons res rest)
  from Cons.prems(2) obtain doc where doc: "getitem documents (index res) = Inr doc"
    by (cases "getitem documents (index res)") auto
  let ?s3 = "after_entry rnd s doc res"
  let ?n = "next_addr s"
  have run: "compress_loop rnd documents rest (compressed @ [Suc ?n]) ?s3 = (Inr out, s')"
    using Cons.prems(2) doc by (simp only: compress_loop_Cons)
  have alloc3: "allocated ?s3 documents"
    using Cons.prems(1) by (rule allocated_after_entry)
  have n3: "next_addr ?s3 = ?n + 2" by (simp add: after_entry_simps)
  note IH = Cons.IH [OF alloc3 run]
  note frame = compress_loop_frame [OF run]
  have out: "out = compressed @ map (\<lambda>i. ?n + 2 * i + 1) [0..<length (res # rest)]"
  proof -
    have "[0..<length (res # rest)] = 0 # map Suc [0..<length rest]"
      by (simp add: upt_conv_Cons map_Suc_upt del: upt_Suc)
    then show ?thesis using IH n3 by (simp add: comp_def)
  qed
  have len: "next_addr s' = ?n + 2 * length (res # rest)"
    using IH n3 by simp
  have each: "\<exists>d. getitem documents (index ((res # rest) ! i)) = Inr d \<and>
        docs_at s' (?n + 2 * i + 1) =
          \<lparr>page_content = page_content (docs_at s d), metadata = ?n + 2 * i\<rparr> \<and>
        dicts_at s' (?n + 2 * i) =
          AList.update ''relevance_score'' (PyFloat (rnd (score ((res # rest) ! i)) 4))
            (dicts_at s (metadata (docs_at s d)))"
    if i: "i < length (res # rest)" for i
  proof (cases i)
    case 0
    have "docs_at s' (Suc ?n) = docs_at ?s3 (Suc ?n)" "dicts_at s' ?n = dicts_at ?s3 ?n"
      using frame n3 by simp_all
    then show ?thesis using 0 doc by (simp add: after_entry_simps)
  next
    case (Suc j)
    with i have j: "j < length rest" by simp
    from IH j obtain d where d: "getitem documents (index (rest ! j)) = Inr d"
      "docs_at s' (next_addr ?s3 + 2 * j + 1) =
          \<lparr>page_content = page_content (docs_at ?s3 d), metadata = next_addr ?s3 + 2 * j\<rparr>"
      "dicts_at s' (next_addr ?s3 + 2 * j) =
          AList.update ''relevance_score'' (PyFloat (rnd (score (rest ! j)) 4))
            (dicts_at ?s3 (metadata (docs_at ?s3 d)))"
      by blast
    from d(1) have "d \<in> set documents" by (rule getitem_mem)
    with Cons.prems(1) have dn: "d < ?n" "metadata (docs_at s d) < ?n"
      by (auto simp: allocated_def list_all_iff)
    then have same: "docs_at ?s3 d = docs_at s d"
      "dicts_at ?s3 (metadata (docs_at s d)) = dicts_at s (metadata (docs_at s d))"
      by (simp_all add: after_entry_simps)
    show ?thesis using d same Suc n3 by simp
  qed
  from out len each show ?case by blast
qed

lemma compress_loop_succeeds:
  "list_all (\<lambda>e. 0 \<le> index e \<and> index e < int (length documents)) entries \<Longrightarrow>
     \<exists>out s'. compress_loop rnd documents entries compressed s = (Inr out, s')"
proof (induction entries arbitrary: compressed s)
  case Nil
  then show ?case by simp
next
  case (Cons res rest)
  then have "getitem documents (index res) = Inr (documents ! nat (index res))"
    by (simp add: getitem_valid)
  then have "compress_loop rnd documents (res # rest) compressed s =
      compress_loop rnd documents rest (compressed @ [Suc (next_addr s)])
        (after_entry rnd s (documents ! nat (index res)) res)"
    by (rule compress_loop_Cons)
  with Cons show ?case by simp
qed

lemma compress_loop_fails:
  "list_ex (\<lambda>e. int (length documents) \<le> index e) entries \<Longrightarrow>
     fst (compress_loop rnd documents entries compressed s) = Inl IndexError"
proof (induction entries arbitrary: compressed s)
  case Nil
  then show ?case by simp
next
  case (Cons res rest)
  show ?case
  proof (cases "getitem documents (index res)")
    case (Inl e)
    then have "e = IndexError" by (rule getitem_error)
    with Inl show ?thesis by simp
  next
    case (Inr doc)
    then have "\<not> int (length documents) \<le> index res"
      by (auto simp: getitem_beyond)
    with Cons.prems have "list_ex (\<lambda>e. int (length documents) \<le> index e) rest"
      by simp
    from Cons.IH [OF this] Inr show ?thesis
      by (simp only: compress_loop_Cons)
  qed
qed

text \<open>The call of \<^verbatim>\<open>_rerank\<close> changes the request log only.\<close>

lemma rerank_state:
  "this (snd (rerank docs query s)) = this s"
  "docs_at (snd (rerank docs query s)) = docs_at s"
  "dicts_at (snd (rerank docs query s)) = dicts_at s"
  "next_addr (snd (rerank docs query s)) = next_addr s"
  by (simp_all add: rerank_def Let_def)

lemma allocated_rerank:
  "allocated (snd (rerank docs query s)) documents = allocated s documents"
  by (simp add: allocated_def rerank_state)

lemma compress_documents_run:
  "documents \<noteq> [] \<Longrightarrow>
   fst (rerank (map Doc documents) query s) = Inr (ResultObject results) \<Longrightarrow>
   compress_documents rnd documents query s =
     compress_loop rnd documents (data results) [] (snd (rerank (map Doc documents) query s))"
  by (cases "rerank (map Doc documents) query s") (simp add: compress_documents_def)

lemma update_absent: "k \<notin> fst ` set al \<Longrightarrow> AList.update k v al = al @ [(k, v)]"
  by (induction al) auto

lemma update_present_keys:
  "k \<in> fst ` set al \<Longrightarrow> map fst (AList.update k v al) = map fst al"
  by (simp add: update_keys)

lemma update_drops_old:
  assumes "distinct (map fst al)" and "(k, old) \<in> set (AList.update k v al)"
  shows "old = v"
proof -
  from assms(1) have "distinct (map fst (AList.update k v al))"
    by (rule distinct_update)
  with assms(2) have "map_of (AList.update k v al) k = Some old"
    by simp
  then show ?thesis by (simp add: update_conv')
qed

text \<open>What \<^verbatim>\<open>compress_documents\<close> leaves behind for the \<open>i\<close>-th entry of the response.\<close>

lemma compress_documents_entry:
  assumes "documents \<noteq> []" and "allocated s documents"
    and "fst (rerank (map Doc documents) query s) = Inr (ResultObject results)"
    and "compress_documents rnd documents query s = (Inr out, s')"
    and "i < length (data results)"
  shows "\<exists>doc. getitem documents (index (data results ! i)) = Inr doc \<and>
       out ! i = next_addr s + 2 * i + 1 \<and>
       metadata (docs_at s' (out ! i)) = next_addr s + 2 * i \<and>
       page_content (docs_at s' (out ! i)) = page_content (docs_at s doc) \<and>
       metadata_of s' (out ! i) =
         AList.update ''relevance_score'' (PyFloat (rnd (score (data results ! i)) 4))
           (metadata_of s doc)"
proof -
  let ?s1 = "snd (rerank (map Doc documents) query s)"
  let ?n = "next_addr s"
  have run: "compress_loop rnd documents (data results) [] ?s1 = (Inr out, s')"
    using assms(1,3,4) by (simp add: compress_documents_run)
  have "allocated ?s1 documents"
    using assms(2) by (simp add: allocated_rerank)
  from compress_loop_result [OF this run]
  have out: "out = map (\<lambda>i. ?n + 2 * i + 1) [0..<length (data results)]"
    and each: "\<forall>i<length (data results). \<exists>doc.
        getitem documents (index (data results ! i)) = Inr doc \<and>
        docs_at s' (?n + 2 * i + 1) =
          \<lparr>page_content = page_content (docs_at s doc), metadata = ?n + 2 * i\<rparr> \<and>
        dicts_at s' (?n + 2 * i) =
          AList.update ''relevance_score'' (PyFloat (rnd (score (data results ! i)) 4))
            (dicts_at s (metadata (docs_at s doc)))"
    by (simp_all add: rerank_state)
  from each assms(5) obtain doc where
    doc: "getitem documents (index (data results ! i)) = Inr doc"
      "docs_at s' (?n + 2 * i + 1) =
          \<lparr>page_content = page_content (docs_at s doc), metadata = ?n + 2 * i\<rparr>"
      "dicts_at s' (?n + 2 * i) =
          AList.update ''relevance_score'' (PyFloat (rnd (score (data results ! i)) 4))
            (dicts_at s (metadata (docs_at s doc)))"
    by blast
  from out assms(5) have "out ! i = ?n + 2 * i + 1" by simp
  with doc show ?thesis by (simp add: metadata_of_def)
qed

lemma compress_documents_length:
  assumes "documents \<noteq> []"
    and "fst (rerank (map Doc documents) query s) = Inr (ResultObject results)"
    and "compress_documents rnd documents query s = (Inr out, s')"
  shows "length out = length (data results)"
proof -
  have "compress_loop rnd documents (data results) []
          (snd (rerank (map Doc documents) query s)) = (Inr out, s')"
    using assms by (simp add: compress_documents_run)
  then show ?thesis by (simp add: compress_loop_length)
qed

text \<open>Whatever \<^verbatim>\<open>compress_documents\<close> returns, it has only allocated new objects and
  logged at most its one request.\<close>

lemma compress_documents_frame:
  assumes "compress_documents rnd documents query s = (r, s')"
  shows "next_addr s \<le> next_addr s' \<and> this s' = this s \<and>
     (\<forall>a. a < next_addr s \<longrightarrow> docs_at s' a = docs_at s a \<and> dicts_at s' a = dicts_at s a)"
proof (cases "documents = []")
  case True
  with assms show ?thesis by (simp add: compress_documents_def)
next
  case False
  let ?s1 = "snd (rerank (map Doc documents) query s)"
  show ?thesis
  proof (cases "fst (rerank (map Doc documents) query s)")
    case (Inl e)
    with False assms have "s' = ?s1"
      by (cases "rerank (map Doc documents) query s") (auto simp: compress_documents_def)
    then show ?thesis by (simp add: rerank_state)
  next
    case (Inr v)
    show ?thesis
    proof (cases v)
      case (Awaitable x)
      with Inr False assms have "s' = ?s1"
        by (cases "rerank (map Doc documents) query s") (auto simp: compress_documents_def)
      then show ?thesis by (simp add: rerank_state)
    next
      case (ResultObject results)
      with Inr False assms
      have "compress_loop rnd documents (data results) [] ?s1 = (r, s')"
        by (simp add: compress_documents_run)
      from compress_loop_frame [OF this] show ?thesis
        by (simp add: rerank_state)
    qed
  qed
qed

lemma compress_documents_requests:
  assumes "documents \<noteq> []"
  shows "requests (snd (compress_documents rnd documents query s)) =
     requests (snd (rerank (map Doc documents) query s))"
proof (cases "fst (rerank (map Doc documents) query s)")
  case (Inl e)
  with assms show ?thesis
    by (cases "rerank (map Doc documents) query s") (auto simp: compress_documents_def)
next
  case (Inr v)
  show ?thesis
  proof (cases v)
    case (Awaitable x)
    with Inr assms show ?thesis
      by (cases "rerank (map Doc documents) query s") (auto simp: compress_documents_def)
  next
    case (ResultObject results)
    let ?run = "compress_loop rnd documents (data results) []
        (snd (rerank (map Doc documents) query s))"
    from ResultObject Inr assms
    have eq: "compress_documents rnd documents query s = ?run"
      by (simp add: compress_documents_run)
    have "?run = (fst ?run, snd ?run)" by simp
    from compress_loop_frame [OF this] eq show ?thesis by simp
  qed
qed

lemma compress_documents_returns:
  assumes "documents \<noteq> []"
    and "compress_documents rnd documents query s = (Inr out, s')"
  shows "\<exists>results. fst (rerank (map Doc documents) query s) = Inr (ResultObject results)"
proof (cases "fst (rerank (map Doc documents) query s)")
  case (Inl e)
  with assms show ?thesis
    by (cases "rerank (map Doc documents) query s") (auto simp: compress_documents_def)
next
  case (Inr v)
  with assms show ?thesis
    by (cases "rerank (map Doc documents) query s"; cases v)
      (auto simp: compress_documents_def)
qed

text \<open>The two loops are the same function.\<close>

lemma acompress_loop_eq:
  "acompress_loop rnd documents entries compressed s =
   compress_loop rnd documents entries compressed s"
proof (induction entries arbitrary: compressed s)
  case Nil
  show ?case by simp
next
  case (Cons res rest)
  show ?case
    by (cases "getitem documents (index res)") (simp_all add: Cons.IH split_def Let_def)
qed

text \<open>Given the same response, the two methods run the same loop from the same state: the
  synchronous one when the client hands the response back directly, the asynchronous one
  when the client hands back an awaitable for it.\<close>

lemma acompress_documents_run:
  assumes "documents \<noteq> []"
    and "fst (rerank (map Doc documents) query s) = Inr (Awaitable (Inr results))"
  shows "acompress_documents rnd documents query s =
     compress_loop rnd documents (data results) [] (snd (rerank (map Doc documents) query s))"
  using assms
  by (simp add: acompress_documents_def arerank_def rerank_def Let_def acompress_loop_eq)

text \<open>With one and the same client, the two methods cannot both return a result for a
  non-empty input: what the call hands back is either a result object, which cannot be
  awaited, or an awaitable, which has no \<^verbatim>\<open>data\<close>.\<close>

lemma never_both_return:
  assumes "documents \<noteq> []"
  shows "\<not> (fst (compress_documents rnd documents query s) = Inr out \<and>
           fst (acompress_documents rnd documents query s) = Inr out')"
proof
  assume both: "fst (compress_documents rnd documents query s) = Inr out \<and>
           fst (acompress_documents rnd documents query s) = Inr out'"
  then have "compress_documents rnd documents query s =
      (Inr out, snd (compress_documents rnd documents query s))"
    by (metis prod.collapse)
  from compress_documents_returns [OF assms this] obtain results
    where "fst (rerank (map Doc documents) query s) = Inr (ResultObject results)" ..
  with assms have "fst (acompress_documents rnd documents query s) = Inl TypeError"
    by (simp add: acompress_documents_def arerank_def rerank_def Let_def)
  with both show False by simp
qed

subsection \<open>The finer store\<close>

lemma is_dict_shift [simp]: "is_dict (shift_obj k obj) = is_dict obj"
  by (cases obj) simp_all

lemma is_dict_set_entry [simp]: "is_dict (set_entry k v obj) = is_dict obj"
  by (cases obj) simp_all

lemma setitem_heap_dict:
  "is_dict (h_objs_at s a) \<Longrightarrow>
   setitem_heap a k v s = Inr (s\<lparr>h_objs_at := (h_objs_at s)(a := set_entry k v (h_objs_at s a))\<rparr>)"
  by (cases "h_objs_at s a") (simp_all add: setitem_heap_def)

lemma after_entry_heap_simps:
  "h_this (after_entry_heap rnd s doc res) = h_this s"
  "h_requests (after_entry_heap rnd s doc res) = h_requests s"
  "h_next_doc (after_entry_heap rnd s doc res) = Suc (h_next_doc s)"
  "h_next_obj (after_entry_heap rnd s doc res) = 2 * h_next_obj s"
  "h_docs_at (after_entry_heap rnd s doc res) =
     (h_docs_at s)(h_next_doc s :=
        \<lparr>page_content = page_content (h_docs_at s doc),
          metadata = metadata (h_docs_at s doc) + h_next_obj s\<rparr>)"
  by (simp_all add: after_entry_heap_def deepcopy_heap_def Document_heap_def Let_def)

lemma after_entry_heap_objs:
  assumes "metadata (h_docs_at s doc) < h_next_obj s"
  shows "h_objs_at (after_entry_heap rnd s doc res) b =
     (if b = metadata (h_docs_at s doc) + h_next_obj s
      then set_entry ''relevance_score'' (HFloat (rnd (score res) 4))
             (shift_obj (h_next_obj s) (h_objs_at s (metadata (h_docs_at s doc))))
      else if h_next_obj s \<le> b \<and> b < 2 * h_next_obj s
      then shift_obj (h_next_obj s) (h_objs_at s (b - h_next_obj s))
      else h_objs_at s b)"
  using assms
  by (simp add: after_entry_heap_def deepcopy_heap_def Document_heap_def Let_def)

lemma compress_loop_heap_Cons:
  assumes "getitem documents (index res) = Inr doc"
    and "is_dict (h_objs_at s (metadata (h_docs_at s doc)))"
    and "metadata (h_docs_at s doc) < h_next_obj s"
  shows "compress_loop_heap rnd documents (res # rest) compressed s =
     compress_loop_heap rnd documents rest (compressed @ [h_next_doc s])
       (after_entry_heap rnd s doc res)"
  using assms
  by (simp add: after_entry_heap_def deepcopy_heap_def Document_heap_def Let_def
      setitem_heap_dict)

lemma closed_heap_iff:
  "closed_heap s documents \<longleftrightarrow>
     (\<forall>d\<in>set documents. d < h_next_doc s \<and> metadata (h_docs_at s d) < h_next_obj s \<and>
        is_dict (h_objs_at s (metadata (h_docs_at s d)))) \<and>
     (\<forall>a<h_next_obj s. \<forall>c\<in>set (refs_obj (h_objs_at s a)). c < h_next_obj s)"
  by (auto simp: closed_heap_def list_all_iff)

lemma refs_val_shift: "set (refs_val (shift_val k v)) = (\<lambda>c. c + k) ` set (refs_val v)"
  by (cases v) simp_all

lemma refs_obj_shift: "set (refs_obj (shift_obj k obj)) = (\<lambda>c. c + k) ` set (refs_obj obj)"
proof (cases obj)
  case (HDict kvs)
  then show ?thesis by (force simp: refs_val_shift split_def)
next
  case (HList vs)
  then show ?thesis by (force simp: refs_val_shift)
qed

lemma set_update_subset: "set (AList.update k v kvs) \<subseteq> insert (k, v) (set kvs)"
  by (induction kvs) auto

lemma refs_obj_set_entry:
  assumes "refs_val v = []"
  shows "set (refs_obj (set_entry k v obj)) \<subseteq> set (refs_obj obj)"
proof (cases obj)
  case (HDict kvs)
  have "c \<in> set (refs_obj (HDict kvs))" if "c \<in> set (refs_obj (HDict (AList.update k v kvs)))"
    for c
  proof -
    from that obtain entry where e: "entry \<in> set (AList.update k v kvs)"
      "c \<in> set (refs_val (snd entry))"
      by auto
    with set_update_subset [of k v kvs] have "entry = (k, v) \<or> entry \<in> set kvs" by auto
    with e assms show ?thesis by auto
  qed
  with HDict show ?thesis by auto
next
  case (HList vs)
  then show ?thesis by simp
qed

lemma closed_heap_after_entry:
  assumes "closed_heap s documents" and "doc \<in> set documents"
  shows "closed_heap (after_entry_heap rnd s doc res) documents"
proof -
  let ?n = "h_next_obj s"
  let ?t = "after_entry_heap rnd s doc res"
  from assms have doc: "doc < h_next_doc s" "metadata (h_docs_at s doc) < ?n"
    by (simp_all add: closed_heap_iff)
  note objs = after_entry_heap_objs [OF doc(2), of rnd res]
  have "d < h_next_doc ?t \<and> metadata (h_docs_at ?t d) < h_next_obj ?t \<and>
        is_dict (h_objs_at ?t (metadata (h_docs_at ?t d)))"
    if "d \<in> set documents" for d
  proof -
    from assms(1) that have d: "d < h_next_doc s" "metadata (h_docs_at s d) < ?n"
      "is_dict (h_objs_at s (metadata (h_docs_at s d)))"
      by (simp_all add: closed_heap_iff)
    then show ?thesis by (simp add: after_entry_heap_simps objs)
  qed
  moreover have "c < h_next_obj ?t"
    if a: "a < h_next_obj ?t" and c: "c \<in> set (refs_obj (h_objs_at ?t a))" for a c
  proof -
    from assms(1) have old: "\<And>b e. b < ?n \<Longrightarrow> e \<in> set (refs_obj (h_objs_at s b)) \<Longrightarrow> e < ?n"
      by (simp add: closed_heap_iff)
    have shifted: "e < 2 * ?n" if "b < ?n" "e \<in> set (refs_obj (shift_obj ?n (h_objs_at s b)))"
      for b e
      using that old [of b] by (auto simp: refs_obj_shift)
    show ?thesis
    proof (cases "a = metadata (h_docs_at s doc) + ?n")
      case True
      with c have "c \<in> set (refs_obj (shift_obj ?n (h_objs_at s (metadata (h_docs_at s doc)))))"
        using refs_obj_set_entry [of "HFloat (rnd (score res) 4)" "''relevance_score''"]
        by (auto simp: objs)
      with shifted [OF doc(2)] show ?thesis by (simp add: after_entry_heap_simps)
    next
      case False
      show ?thesis
      proof (cases "?n \<le> a")
        case True
        with a have "a - ?n < ?n" by (simp add: after_entry_heap_simps)
        moreover from c False True a
        have "c \<in> set (refs_obj (shift_obj ?n (h_objs_at s (a - ?n))))"
          by (simp add: objs after_entry_heap_simps)
        ultimately show ?thesis using shifted by (simp add: after_entry_heap_simps)
      next
        case nle: False
        with c False have "c \<in> set (refs_obj (h_objs_at s a))" by (simp add: objs)
        with nle old [of a c] show ?thesis by (simp add: after_entry_heap_simps)
      qed
    qed
  qed
  ultimately show ?thesis by (simp add: closed_heap_iff)
qed

text \<open>The loop only allocates: every object that existed before is unchanged.\<close>

lemma compress_loop_heap_frame:
  "closed_heap s documents \<Longrightarrow>
   compress_loop_heap rnd documents entries compressed s = (r, s') \<Longrightarrow>
     h_next_doc s \<le> h_next_doc s' \<and> h_next_obj s \<le> h_next_obj s' \<and>
     h_this s' = h_this s \<and> h_requests s' = h_requests s \<and>
     closed_heap s' documents \<and>
     (\<forall>a<h_next_doc s. h_docs_at s' a = h_docs_at s a) \<and>
     (\<forall>a<h_next_obj s. h_objs_at s' a = h_objs_at s a)"
proof (induction entries arbitrary: compressed s)
  case Nil
  then show ?case by simp
next
  case (Cons res rest)
  show ?case
  proof (cases "getitem documents (index res)")
    case (Inl e)
    with Cons.prems show ?thesis by simp
  next
    case (Inr doc)
    then have mem: "doc \<in> set documents" by (rule getitem_mem)
    with Cons.prems(1) have doc: "is_dict (h_objs_at s (metadata (h_docs_at s doc)))"
      "metadata (h_docs_at s doc) < h_next_obj s"
      by (simp_all add: closed_heap_iff)
    let ?t = "after_entry_heap rnd s doc res"
    have run: "compress_loop_heap rnd documents rest (compressed @ [h_next_doc s]) ?t = (r, s')"
      using Cons.prems(2) by (simp only: compress_loop_heap_Cons [OF Inr doc])
    have closed: "closed_heap ?t documents"
      using Cons.prems(1) mem by (rule closed_heap_after_entry)
    from Cons.IH [OF closed run] show ?thesis
      by (auto simp: after_entry_heap_simps after_entry_heap_objs [OF doc(2)])
  qed
qed

text \<open>No container made by the loop refers to a container that existed before.\<close>

lemma compress_loop_heap_new_refs:
  "closed_heap s documents \<Longrightarrow>
   compress_loop_heap rnd documents entries compressed s = (r, s') \<Longrightarrow>
     (\<forall>a. h_next_obj s \<le> a \<and> a < h_next_obj s' \<longrightarrow>
        (\<forall>c\<in>set (refs_obj (h_objs_at s' a)). h_next_obj s \<le> c))"
proof (induction entries arbitrary: compressed s)
  case Nil
  then show ?case by simp
next
  case (Cons res rest)
  show ?case
  proof (cases "getitem documents (index res)")
    case (Inl e)
    with Cons.prems show ?thesis by simp
  next
    case (Inr doc)
    then have mem: "doc \<in> set documents" by (rule getitem_mem)
    with Cons.prems(1) have doc: "is_dict (h_objs_at s (metadata (h_docs_at s doc)))"
      "metadata (h_docs_at s doc) < h_next_obj s"
      by (simp_all add: closed_heap_iff)
    let ?n = "h_next_obj s"
    let ?t = "after_entry_heap rnd s doc res"
    note objs = after_entry_heap_objs [OF doc(2), of rnd res]
    have run: "compress_loop_heap rnd documents rest (compressed @ [h_next_doc s]) ?t = (r, s')"
      using Cons.prems(2) by (simp only: compress_loop_heap_Cons [OF Inr doc])
    have closed: "closed_heap ?t documents"
      using Cons.prems(1) mem by (rule closed_heap_after_entry)
    note IH = Cons.IH [OF closed run]
    note frame = compress_loop_heap_frame [OF closed run]
    have "?n \<le> c"
      if a: "?n \<le> a" "a < h_next_obj s'" and c: "c \<in> set (refs_obj (h_objs_at s' a))" for a c
    proof (cases "a < 2 * ?n")
      case True
      with frame have same: "h_objs_at s' a = h_objs_at ?t a"
        by (simp add: after_entry_heap_simps)
      show ?thesis
      proof (cases "a = metadata (h_docs_at s doc) + ?n")
        case eq: True
        with c same
        have "c \<in> set (refs_obj (shift_obj ?n (h_objs_at s (metadata (h_docs_at s doc)))))"
          using refs_obj_set_entry [of "HFloat (rnd (score res) 4)" "''relevance_score''"]
          by (auto simp: objs)
        then show ?thesis by (auto simp: refs_obj_shift)
      next
        case False
        with c same a True have "c \<in> set (refs_obj (shift_obj ?n (h_objs_at s (a - ?n))))"
          by (simp add: objs)
        then show ?thesis by (auto simp: refs_obj_shift)
      qed
    next
      case False
      with IH a c have "h_next_obj ?t \<le> c"
        by (auto simp: after_entry_heap_simps not_less)
      then show ?thesis by (simp add: after_entry_heap_simps)
    qed
    then show ?thesis by blast
  qed
qed

text \<open>What the loop leaves behind for each Document it appends: the Document is new, and its
  metadata is the renamed copy of the metadata of an input Document, with the score set.\<close>

lemma compress_loop_heap_outputs:
  "closed_heap s documents \<Longrightarrow>
   compress_loop_heap rnd documents entries compressed s = (Inr out, s') \<Longrightarrow>
     \<exists>new. out = compressed @ new \<and>
       (\<forall>b\<in>set new.
          h_next_doc s \<le> b \<and> b < h_next_doc s' \<and>
          h_next_obj s \<le> metadata (h_docs_at s' b) \<and>
          metadata (h_docs_at s' b) < h_next_obj s' \<and>
          (\<exists>d\<in>set documents. \<exists>k v.
             h_next_obj s \<le> k \<and>
             page_content (h_docs_at s' b) = page_content (h_docs_at s d) \<and>
             metadata (h_docs_at s' b) = metadata (h_docs_at s d) + k \<and>
             h_objs_at s' (metadata (h_docs_at s' b)) =
               set_entry ''relevance_score'' (HFloat v)
                 (shift_obj k (h_objs_at s (metadata (h_docs_at s d)))) \<and>
             (\<forall>a<h_next_obj s. a \<noteq> metadata (h_docs_at s d) \<longrightarrow>
                h_objs_at s' (a + k) = shift_obj k (h_objs_at s a))))"
proof (induction entries arbitrary: compressed s)
  case Nil
  then show ?case by simp
next
  case (Cons res rest)
  from Cons.prems(2) obtain doc where Inr: "getitem documents (index res) = Inr doc"
    by (cases "getitem documents (index res)") auto
  then have mem: "doc \<in> set documents" by (rule getitem_mem)
  with Cons.prems(1) have doc: "is_dict (h_objs_at s (metadata (h_docs_at s doc)))"
    "metadata (h_docs_at s doc) < h_next_obj s"
    by (simp_all add: closed_heap_iff)
  let ?n = "h_next_obj s"
  let ?nd = "h_next_doc s"
  let ?t = "after_entry_heap rnd s doc res"
  note objs = after_entry_heap_objs [OF doc(2), of rnd res]
  have run: "compress_loop_heap rnd documents rest (compressed @ [?nd]) ?t = (Inr out, s')"
    using Cons.prems(2) by (simp only: compress_loop_heap_Cons [OF Inr doc])
  have closed: "closed_heap ?t documents"
    using Cons.prems(1) mem by (rule closed_heap_after_entry)
  from Cons.IH [OF closed run] obtain new where
    out: "out = (compressed @ [?nd]) @ new" and
    new: "\<forall>b\<in>set new.
          h_next_doc ?t \<le> b \<and> b < h_next_doc s' \<and>
          h_next_obj ?t \<le> metadata (h_docs_at s' b) \<and>
          metadata (h_docs_at s' b) < h_next_obj s' \<and>
          (\<exists>d\<in>set documents. \<exists>k v.
             h_next_obj ?t \<le> k \<and>
             page_content (h_docs_at s' b) = page_content (h_docs_at ?t d) \<and>
             metadata (h_docs_at s' b) = metadata (h_docs_at ?t d) + k \<and>
             h_objs_at s' (metadata (h_docs_at s' b)) =
               set_entry ''relevance_score'' (HFloat v)
                 (shift_obj k (h_objs_at ?t (metadata (h_docs_at ?t d)))) \<and>
             (\<forall>a<h_next_obj ?t. a \<noteq> metadata (h_docs_at ?t d) \<longrightarrow>
                h_objs_at s' (a + k) = shift_obj k (h_objs_at ?t a)))"
    by blast
  note frame = compress_loop_heap_frame [OF closed run]
  have old: "h_docs_at ?t d = h_docs_at s d \<and>
      h_objs_at ?t (metadata (h_docs_at s d)) = h_objs_at s (metadata (h_docs_at s d))"
    if "d \<in> set documents" for d
  proof -
    from Cons.prems(1) that have "d < ?nd" "metadata (h_docs_at s d) < ?n"
      by (simp_all add: closed_heap_iff)
    then show ?thesis by (simp add: after_entry_heap_simps objs)
  qed
  have below: "h_objs_at ?t a = h_objs_at s a" if "a < ?n" for a
    using that by (simp add: objs)
  let ?P = "\<lambda>b. h_next_doc s \<le> b \<and> b < h_next_doc s' \<and>
          h_next_obj s \<le> metadata (h_docs_at s' b) \<and>
          metadata (h_docs_at s' b) < h_next_obj s' \<and>
          (\<exists>d\<in>set documents. \<exists>k v.
             h_next_obj s \<le> k \<and>
             page_content (h_docs_at s' b) = page_content (h_docs_at s d) \<and>
             metadata (h_docs_at s' b) = metadata (h_docs_at s d) + k \<and>
             h_objs_at s' (metadata (h_docs_at s' b)) =
               set_entry ''relevance_score'' (HFloat v)
                 (shift_obj k (h_objs_at s (metadata (h_docs_at s d)))) \<and>
             (\<forall>a<h_next_obj s. a \<noteq> metadata (h_docs_at s d) \<longrightarrow>
                h_objs_at s' (a + k) = shift_obj k (h_objs_at s a)))"
  have first: "?P ?nd"
  proof -
    from frame have d': "h_docs_at s' ?nd = h_docs_at ?t ?nd"
      by (simp add: after_entry_heap_simps)
    then have meta: "metadata (h_docs_at s' ?nd) = metadata (h_docs_at s doc) + ?n"
      by (simp add: after_entry_heap_simps)
    from frame have o': "\<And>a. a < 2 * ?n \<Longrightarrow> h_objs_at s' a = h_objs_at ?t a"
      by (simp add: after_entry_heap_simps)
    have "h_objs_at s' (metadata (h_docs_at s doc) + ?n) =
        set_entry ''relevance_score'' (HFloat (rnd (score res) 4))
          (shift_obj ?n (h_objs_at s (metadata (h_docs_at s doc))))"
      using doc(2) by (simp add: o' objs)
    moreover have "\<forall>a<?n. a \<noteq> metadata (h_docs_at s doc) \<longrightarrow>
        h_objs_at s' (a + ?n) = shift_obj ?n (h_objs_at s a)"
      by (simp add: o' objs)
    moreover have "page_content (h_docs_at s' ?nd) = page_content (h_docs_at s doc)"
      by (simp add: d' after_entry_heap_simps)
    moreover from frame have "?nd < h_next_doc s'" "metadata (h_docs_at s doc) + ?n < h_next_obj s'"
      using doc(2) by (simp_all add: after_entry_heap_simps)
    ultimately show ?thesis using mem meta by auto
  qed
  have rest: "?P b" if b: "b \<in> set new" for b
  proof -
    from new b obtain d k v where
      b1: "h_next_doc ?t \<le> b" "b < h_next_doc s'"
        "h_next_obj ?t \<le> metadata (h_docs_at s' b)" "metadata (h_docs_at s' b) < h_next_obj s'"
      and d: "d \<in> set documents" "h_next_obj ?t \<le> k"
        "page_content (h_docs_at s' b) = page_content (h_docs_at ?t d)"
        "metadata (h_docs_at s' b) = metadata (h_docs_at ?t d) + k"
        "h_objs_at s' (metadata (h_docs_at s' b)) =
               set_entry ''relevance_score'' (HFloat v)
                 (shift_obj k (h_objs_at ?t (metadata (h_docs_at ?t d))))"
        "\<forall>a<h_next_obj ?t. a \<noteq> metadata (h_docs_at ?t d) \<longrightarrow>
                h_objs_at s' (a + k) = shift_obj k (h_objs_at ?t a)"
      by blast
    from old [OF d(1)] have od: "h_docs_at ?t d = h_docs_at s d"
      "h_objs_at ?t (metadata (h_docs_at s d)) = h_objs_at s (metadata (h_docs_at s d))"
      by simp_all
    have iso: "\<forall>a<?n. a \<noteq> metadata (h_docs_at s d) \<longrightarrow>
        h_objs_at s' (a + k) = shift_obj k (h_objs_at s a)"
      using d(6) below by (simp add: od after_entry_heap_simps)
    from b1 d(2) have "?nd \<le> b" "?n \<le> metadata (h_docs_at s' b)" "?n \<le> k"
      by (simp_all add: after_entry_heap_simps)
    with b1(2,4) d(1,3,4,5) iso show ?thesis
      by (auto simp: od)
  qed
  from out have "out = compressed @ (?nd # new)" by simp
  moreover from first rest have "\<forall>b\<in>set (?nd # new). ?P b" by simp
  ultimately show ?case by blast
qed

text \<open>Reachability stays inside a region that is closed under references.\<close>

lemma reach_below:
  assumes "\<forall>a<n. \<forall>c\<in>set (refs_obj (h_objs_at s a)). c < n"
    and "c \<in> reach s a0" and "a0 < n"
  shows "c < n"
  using assms(2,3,1) by (induction rule: reach.induct) auto

lemma reach_above:
  assumes "\<forall>a. lo \<le> a \<and> a < hi \<longrightarrow> (\<forall>c\<in>set (refs_obj (h_objs_at s a)). lo \<le> c)"
    and "\<forall>a<hi. \<forall>c\<in>set (refs_obj (h_objs_at s a)). c < hi"
    and "c \<in> reach s a0" and "lo \<le> a0" and "a0 < hi"
  shows "lo \<le> c \<and> c < hi"
  using assms(3,4,5,1,2) by (induction rule: reach.induct) auto

lemma reach_mono_agree:
  assumes "\<forall>a<n. \<forall>c\<in>set (refs_obj (h_objs_at s a)). c < n"
    and "\<forall>a<n. h_objs_at t a = h_objs_at s a"
    and "c \<in> reach s a0" and "a0 < n"
  shows "c \<in> reach t a0 \<and> c < n"
  using assms(3,4,1,2)
proof (induction rule: reach.induct)
  case reach_self
  then show ?case by (simp add: reach.reach_self)
next
  case (reach_step b c)
  then have b: "b \<in> reach t a0" "b < n" by simp_all
  with reach_step have "c \<in> set (refs_obj (h_objs_at t b))" by simp
  with b(1) have "c \<in> reach t a0" by (rule reach.reach_step)
  moreover from reach_step b have "c < n" by auto
  ultimately show ?case by simp
qed

lemma reach_agree:
  assumes "\<forall>a<n. \<forall>c\<in>set (refs_obj (h_objs_at s a)). c < n"
    and "\<forall>a<n. h_objs_at t a = h_objs_at s a"
    and "a0 < n"
  shows "reach t a0 = reach s a0"
proof -
  have closed_t: "\<forall>a<n. \<forall>c\<in>set (refs_obj (h_objs_at t a)). c < n"
    using assms(1,2) by simp
  have agree_rev: "\<forall>a<n. h_objs_at s a = h_objs_at t a"
    using assms(2) by simp
  have "c \<in> reach t a0" if "c \<in> reach s a0" for c
    using reach_mono_agree [OF assms(1,2) that assms(3)] by simp
  moreover have "c \<in> reach s a0" if "c \<in> reach t a0" for c
    using reach_mono_agree [OF closed_t agree_rev that assms(3)] by simp
  ultimately show ?thesis by blast
qed

lemma rerank_heap_state:
  "h_this (snd (rerank_heap docs query s)) = h_this s"
  "h_docs_at (snd (rerank_heap docs query s)) = h_docs_at s"
  "h_next_doc (snd (rerank_heap docs query s)) = h_next_doc s"
  "h_objs_at (snd (rerank_heap docs query s)) = h_objs_at s"
  "h_next_obj (snd (rerank_heap docs query s)) = h_next_obj s"
  by (simp_all add: rerank_heap_def Let_def)

lemma closed_heap_rerank:
  "closed_heap (snd (rerank_heap docs query s)) documents = closed_heap s documents"
  by (simp add: closed_heap_def rerank_heap_state)

text \<open>\<^verbatim>\<open>compress_documents\<close> over the finer store either runs the loop, from a state with the
  store of the initial state, or stops in such a state with an exception.\<close>

lemma compress_documents_heap_cases:
  assumes "compress_documents_heap rnd documents query s = (r, s')"
  shows "\<exists>entries t.
     h_docs_at t = h_docs_at s \<and> h_next_doc t = h_next_doc s \<and>
     h_objs_at t = h_objs_at s \<and> h_next_obj t = h_next_obj s \<and>
     (compress_loop_heap rnd documents entries [] t = (r, s') \<or> (\<exists>e. r = Inl e) \<and> s' = t)"
proof (cases "documents = []")
  case True
  with assms have "compress_loop_heap rnd documents [] [] s = (r, s')"
    by (simp add: compress_documents_heap_def)
  then show ?thesis by blast
next
  case False
  let ?t = "snd (rerank_heap (map Doc documents) query s)"
  have t: "h_docs_at ?t = h_docs_at s \<and> h_next_doc ?t = h_next_doc s \<and>
     h_objs_at ?t = h_objs_at s \<and> h_next_obj ?t = h_next_obj s"
    by (simp add: rerank_heap_state)
  show ?thesis
  proof (cases "fst (rerank_heap (map Doc documents) query s)")
    case (Inl e)
    with False assms have "r = Inl e \<and> s' = ?t"
      by (cases "rerank_heap (map Doc documents) query s")
        (auto simp: compress_documents_heap_def)
    with t show ?thesis by blast
  next
    case (Inr v)
    show ?thesis
    proof (cases v)
      case (Awaitable x)
      with Inr False assms have "r = Inl AttributeError \<and> s' = ?t"
        by (cases "rerank_heap (map Doc documents) query s")
          (auto simp: compress_documents_heap_def)
      with t show ?thesis by blast
    next
      case (ResultObject results)
      with Inr False assms
      have "compress_loop_heap rnd documents (data results) [] ?t = (r, s')"
        by (cases "rerank_heap (map Doc documents) query s")
          (auto simp: compress_documents_heap_def)
      with t show ?thesis by blast
    qed
  qed
qed

text \<open>The two stores give the same outcome: the same exception, or sequences of the same
  length.\<close>

lemma compress_loops_agree:
  "closed_heap hs documents \<Longrightarrow> length ch = length cs \<Longrightarrow>
   map_sum id length (fst (compress_loop_heap rnd documents entries ch hs)) =
   map_sum id length (fst (compress_loop rnd documents entries cs s))"
proof (induction entries arbitrary: ch cs hs s)
  case Nil
  then show ?case by simp
next
  case (Cons res rest)
  show ?case
  proof (cases "getitem documents (index res)")
    case (Inl e)
    then show ?thesis by simp
  next
    case (Inr doc)
    then have mem: "doc \<in> set documents" by (rule getitem_mem)
    with Cons.prems(1) have doc: "is_dict (h_objs_at hs (metadata (h_docs_at hs doc)))"
      "metadata (h_docs_at hs doc) < h_next_obj hs"
      by (simp_all add: closed_heap_iff)
    have closed: "closed_heap (after_entry_heap rnd hs doc res) documents"
      using Cons.prems(1) mem by (rule closed_heap_after_entry)
    from Cons.prems(2) have "length (ch @ [h_next_doc hs]) = length (cs @ [Suc (next_addr s)])"
      by simp
    from Cons.IH [OF closed this] show ?thesis
      by (simp only: compress_loop_heap_Cons [OF Inr doc] compress_loop_Cons [OF Inr])
  qed
qed

lemma compress_documents_stores_agree:
  assumes "closed_heap hs documents"
    and "h_this hs = this s"
    and "map (\<lambda>a. page_content (h_docs_at hs a)) documents =
         map (\<lambda>a. page_content (docs_at s a)) documents"
  shows "map_sum id length (fst (compress_documents_heap rnd documents query hs)) =
     map_sum id length (fst (compress_documents rnd documents query s))"
proof (cases "documents = []")
  case True
  then show ?thesis by (simp add: compress_documents_heap_def compress_documents_def)
next
  case False
  let ?hs1 = "snd (rerank_heap (map Doc documents) query hs)"
  let ?s1 = "snd (rerank (map Doc documents) query s)"
  have same: "fst (rerank_heap (map Doc documents) query hs) =
      fst (rerank (map Doc documents) query s)"
    by (simp add: rerank_heap_def rerank_def Let_def comp_def assms(2) assms(3))
  have closed: "closed_heap ?hs1 documents"
    using assms(1) by (simp add: closed_heap_rerank)
  show ?thesis
  proof (cases "fst (rerank (map Doc documents) query s)")
    case (Inl e)
    with same False show ?thesis
      by (cases "rerank_heap (map Doc documents) query hs";
          cases "rerank (map Doc documents) query s")
        (simp add: compress_documents_heap_def compress_documents_def)
  next
    case (Inr v)
    show ?thesis
    proof (cases v)
      case (Awaitable x)
      with Inr same False show ?thesis
        by (cases "rerank_heap (map Doc documents) query hs";
            cases "rerank (map Doc documents) query s")
          (simp add: compress_documents_heap_def compress_documents_def)
    next
      case (ResultObject results)
      with Inr same False
      have "compress_documents_heap rnd documents query hs =
          compress_loop_heap rnd documents (data results) [] ?hs1"
        "compress_documents rnd documents query s =
          compress_loop rnd documents (data results) [] ?s1"
        by (cases "rerank_heap (map Doc documents) query hs";
            cases "rerank (map Doc documents) query s";
            simp add: compress_documents_heap_def compress_documents_def)+
      with compress_loops_agree [OF closed, of "[]" "[]" rnd "data results" ?s1]
      show ?thesis by simp
    qed
  qed
qed

text \<open>Facts for evaluating the examples.\<close>

lemma round_exact_third: "round_exact (1 / 3) 4 = 3333 / 10000"
  by code_simp

lemma round_exact_tie: "round_exact (1 / 32) 4 = 39 / 1250"
  by code_simp

lemmas example_defs =
  compress_documents_def rerank_def example_state_def getitem_def deepcopy_def Document_def
  setitem_def metadata_of_def allocated_def Let_def round_exact_third round_exact_tie

lemmas example_heap_defs =
  compress_documents_heap_def rerank_heap_def example_heap_def getitem_def deepcopy_heap_def
  Document_heap_def setitem_heap_def Let_def round_exact_third round_exact_tie

lemma closed_example_heap: "closed_heap (example_heap c) [0, 1, 2]"
  by (simp add: closed_heap_def example_heap_def upt_conv_Cons)

lemma example_heap_fst:
  "fst (compress_documents_heap round_exact [0, 1, 2] ''q'' (example_heap sync_client)) =
     Inr [3, 4]"
  by (simp add: example_heap_defs sync_client_def)

lemma example_heap_copy:
  "metadata (h_docs_at (snd (compress_documents_heap round_exact [0, 1, 2] ''q''
      (example_heap sync_client))) 4) = 8"
  "h_objs_at (snd (compress_documents_heap round_exact [0, 1, 2] ''q''
      (example_heap sync_client))) 8 =
     HDict [(''source'', HStr ''a.txt''), (''tags'', HRef 11),
            (''relevance_score'', HFloat (39 / 1250))]"
  "h_objs_at (snd (compress_documents_heap round_exact [0, 1, 2] ''q''
      (example_heap sync_client))) 11 = HList [HStr ''x'', HStr ''y'']"
  by (simp_all add: example_heap_defs sync_client_def)

text \<open>The finer store tells a deep copy from a shallow one. Had the new dict been given the
  entries of the first Document's metadata as they are, it would reach the list at address 3,
  which the first Document's metadata reaches too; the copy that \<open>deepcopy_heap\<close> makes
  refers to the copied list at address 7 instead.\<close>

lemma shallow_copy_would_share:
  "3 \<in> reach (example_heap c) 0 \<and>
   3 \<in> reach ((example_heap c)\<lparr>h_objs_at := (h_objs_at (example_heap c))
                 (4 := h_objs_at (example_heap c) 0), h_next_obj := 5\<rparr>) 4 \<and>
   fst (deepcopy_heap 0 (example_heap c)) = 4 \<and>
   h_objs_at (snd (deepcopy_heap 0 (example_heap c))) 4 =
     HDict [(''source'', HStr ''a.txt''), (''tags'', HRef 7)] \<and>
   h_objs_at (snd (deepcopy_heap 0 (example_heap c))) 7 = HList [HStr ''x'', HStr ''y'']"
proof -
  have "3 \<in> reach (example_heap c) 0"
    by (rule reach_step [OF reach_self]) (simp add: example_heap_def)
  moreover
  have "3 \<in> reach ((example_heap c)\<lparr>h_objs_at := (h_objs_at (example_heap c))
                 (4 := h_objs_at (example_heap c) 0), h_next_obj := 5\<rparr>) 4"
    by (rule reach_step [OF reach_self]) (simp add: example_heap_def)
  ultimately show ?thesis
    by (simp add: deepcopy_heap_def example_heap_def Let_def)
qed

section \<open>The claims\<close>

text \<open>
  Claim C1. For a non-empty input sequence and any response of the remote service, when
  \<^verbatim>\<open>compress_documents\<close> returns, its output has one Document for each entry of the
  response, in the order of the response: the \<open>i\<close>-th output is built from the input
  Document that Python's indexing finds at position \<open>index\<close> of the \<open>i\<close>-th entry (for a
  non-negative index, the element at that position of the input), whatever the order of the
  input.
\<close>

theorem output_follows_response_order:
  assumes "documents \<noteq> []" and "allocated s documents"
    and "fst (rerank (map Doc documents) query s) = Inr (ResultObject results)"
    and "compress_documents rnd documents query s = (Inr out, s')"
  shows "length out = length (data results) \<and>
    (\<forall>i<length (data results). \<exists>doc.
       getitem documents (index (data results ! i)) = Inr doc \<and>
       (0 \<le> index (data results ! i) \<longrightarrow> doc = documents ! nat (index (data results ! i))) \<and>
       page_content (docs_at s' (out ! i)) = page_content (docs_at s doc) \<and>
       metadata_of s' (out ! i) =
         AList.update ''relevance_score'' (PyFloat (rnd (score (data results ! i)) 4))
           (metadata_of s doc))"
proof -
  have "length out = length (data results)"
    using assms(1,3,4) by (rule compress_documents_length)
  moreover have "\<exists>doc. getitem documents (index (data results ! i)) = Inr doc \<and>
       (0 \<le> index (data results ! i) \<longrightarrow> doc = documents ! nat (index (data results ! i))) \<and>
       page_content (docs_at s' (out ! i)) = page_content (docs_at s doc) \<and>
       metadata_of s' (out ! i) =
         AList.update ''relevance_score'' (PyFloat (rnd (score (data results ! i)) 4))
           (metadata_of s doc)"
    if "i < length (data results)" for i
    using compress_documents_entry [OF assms that] by (auto dest: getitem_nonneg)
  ultimately show ?thesis by blast
qed

theorem output_follows_response_order_witness:
  "[0, 2, 4] \<noteq> ([] :: addr list) \<and> allocated (example_state sync_client) [0, 2, 4] \<and>
   fst (rerank (map Doc [0, 2, 4]) ''q'' (example_state sync_client)) =
     Inr (ResultObject \<lparr>data = [\<lparr>index = 2, score = 1 / 3\<rparr>, \<lparr>index = 0, score = 1 / 32\<rparr>]\<rparr>) \<and>
   fst (compress_documents round_exact [0, 2, 4] ''q'' (example_state sync_client)) = Inr [7, 9] \<and>
   page_content (docs_at (snd (compress_documents round_exact [0, 2, 4] ''q''
      (example_state sync_client))) 7) = ''gamma'' \<and>
   page_content (docs_at (snd (compress_documents round_exact [0, 2, 4] ''q''
      (example_state sync_client))) 9) = ''alpha''"
  using output_follows_response_order [of "[0, 2, 4]" "example_state sync_client" "''q''"
      "\<lparr>data = [\<lparr>index = 2, score = 1 / 3\<rparr>, \<lparr>index = 0, score = 1 / 32\<rparr>]\<rparr>" round_exact "[7, 9]"
      "snd (compress_documents round_exact [0, 2, 4] ''q'' (example_state sync_client))"]
  by (simp add: example_defs sync_client_def)

text \<open>
  Claim C2, as stated: each output Document's metadata is the input Document's metadata
  with exactly one added key \<^verbatim>\<open>relevance_score\<close>. This fails for an input Document
  whose metadata already has that key. In the example the first response entry points at
  the third Document, whose metadata is \<^verbatim>\<open>{relevance_score: 0.9, page: 7}\<close>; the output
  metadata is \<^verbatim>\<open>{relevance_score: 0.3333, page: 7}\<close>: it has the same two keys as the
  input, none added, and the input's entry for \<^verbatim>\<open>relevance_score\<close> is gone.
\<close>

theorem one_added_key_counterexample:
  "fst (compress_documents round_exact [0, 2, 4] ''q'' (example_state sync_client)) = Inr [7, 9] \<and>
   getitem [0, 2, 4 :: addr] 2 = Inr 4 \<and>
   metadata_of (example_state sync_client) 4 =
     [(''relevance_score'', PyFloat (9 / 10)), (''page'', PyInt 7)] \<and>
   metadata_of (snd (compress_documents round_exact [0, 2, 4] ''q''
      (example_state sync_client))) 7 =
     [(''relevance_score'', PyFloat (3333 / 10000)), (''page'', PyInt 7)] \<and>
   length (metadata_of (snd (compress_documents round_exact [0, 2, 4] ''q''
      (example_state sync_client))) 7) \<noteq>
     length (metadata_of (example_state sync_client) 4) + 1"
  by (simp add: example_defs sync_client_def)

text \<open>
  Claim C2, amended. Each output Document has the text payload of the corresponding input
  Document, and its metadata is a new dict object whose contents are the input Document's
  metadata with the key \<^verbatim>\<open>relevance_score\<close> set to the rounded score: every other key
  keeps its value, the key is appended when the input metadata lacks it, and its value is
  replaced (no key is added) when the input metadata already has it.
\<close>

theorem metadata_is_copy_with_score:
  assumes "documents \<noteq> []" and "allocated s documents"
    and "fst (rerank (map Doc documents) query s) = Inr (ResultObject results)"
    and "compress_documents rnd documents query s = (Inr out, s')"
    and "i < length (data results)"
  shows "\<exists>doc. getitem documents (index (data results ! i)) = Inr doc \<and>
     page_content (docs_at s' (out ! i)) = page_content (docs_at s doc) \<and>
     next_addr s \<le> metadata (docs_at s' (out ! i)) \<and>
     metadata_of s' (out ! i) =
       AList.update ''relevance_score'' (PyFloat (rnd (score (data results ! i)) 4))
         (metadata_of s doc) \<and>
     map_of (metadata_of s' (out ! i)) ''relevance_score'' =
       Some (PyFloat (rnd (score (data results ! i)) 4)) \<and>
     (\<forall>k. k \<noteq> ''relevance_score'' \<longrightarrow>
        map_of (metadata_of s' (out ! i)) k = map_of (metadata_of s doc) k) \<and>
     (''relevance_score'' \<notin> fst ` set (metadata_of s doc) \<longrightarrow>
        metadata_of s' (out ! i) =
          metadata_of s doc @ [(''relevance_score'', PyFloat (rnd (score (data results ! i)) 4))]) \<and>
     (''relevance_score'' \<in> fst ` set (metadata_of s doc) \<longrightarrow>
        map fst (metadata_of s' (out ! i)) = map fst (metadata_of s doc))"
proof -
  from compress_documents_entry [OF assms] obtain doc where
    doc: "getitem documents (index (data results ! i)) = Inr doc"
      "metadata (docs_at s' (out ! i)) = next_addr s + 2 * i"
      "page_content (docs_at s' (out ! i)) = page_content (docs_at s doc)"
      "metadata_of s' (out ! i) =
         AList.update ''relevance_score'' (PyFloat (rnd (score (data results ! i)) 4))
           (metadata_of s doc)"
    by blast
  have "map_of (metadata_of s' (out ! i)) ''relevance_score'' =
       Some (PyFloat (rnd (score (data results ! i)) 4))"
    by (simp add: doc(4) update_conv')
  moreover have "\<forall>k. k \<noteq> ''relevance_score'' \<longrightarrow>
        map_of (metadata_of s' (out ! i)) k = map_of (metadata_of s doc) k"
    by (simp add: doc(4) update_conv')
  moreover have "''relevance_score'' \<notin> fst ` set (metadata_of s doc) \<longrightarrow>
        metadata_of s' (out ! i) =
          metadata_of s doc @ [(''relevance_score'', PyFloat (rnd (score (data results ! i)) 4))]"
    by (simp add: doc(4) update_absent)
  moreover have "''relevance_score'' \<in> fst ` set (metadata_of s doc) \<longrightarrow>
        map fst (metadata_of s' (out ! i)) = map fst (metadata_of s doc)"
    by (simp add: doc(4) update_present_keys)
  moreover have "next_addr s \<le> metadata (docs_at s' (out ! i))"
    by (simp add: doc(2))
  ultimately show ?thesis using doc(1,3,4) by blast
qed

theorem metadata_is_copy_with_score_witness:
  "[0, 2, 4] \<noteq> ([] :: addr list) \<and> allocated (example_state sync_client) [0, 2, 4] \<and>
   fst (rerank (map Doc [0, 2, 4]) ''q'' (example_state sync_client)) =
     Inr (ResultObject \<lparr>data = [\<lparr>index = 2, score = 1 / 3\<rparr>, \<lparr>index = 0, score = 1 / 32\<rparr>]\<rparr>) \<and>
   fst (compress_documents round_exact [0, 2, 4] ''q'' (example_state sync_client)) = Inr [7, 9] \<and>
   (1 :: nat) < length [\<lparr>index = 2, score = 1 / 3\<rparr>, \<lparr>index = 0, score = 1 / 32 :: rat\<rparr>] \<and>
   getitem [0, 2, 4 :: addr] 0 = Inr 0 \<and>
   metadata_of (example_state sync_client) 0 = [(''source'', PyStr ''a.txt'')] \<and>
   metadata_of (snd (compress_documents round_exact [0, 2, 4] ''q''
      (example_state sync_client))) 9 =
     [(''source'', PyStr ''a.txt''), (''relevance_score'', PyFloat (39 / 1250))] \<and>
   page_content (docs_at (snd (compress_documents round_exact [0, 2, 4] ''q''
      (example_state sync_client))) 9) = ''alpha''"
  using metadata_is_copy_with_score [of "[0, 2, 4]" "example_state sync_client" "''q''"
      "\<lparr>data = [\<lparr>index = 2, score = 1 / 3\<rparr>, \<lparr>index = 0, score = 1 / 32\<rparr>]\<rparr>" round_exact "[7, 9]"
      "snd (compress_documents round_exact [0, 2, 4] ''q'' (example_state sync_client))" 1]
  by (simp add: example_defs sync_client_def)

text \<open>
  Claim C3, as stated: the output is never longer than the smaller of \<^verbatim>\<open>top_n\<close> and the
  input length. The code does not cut the response down itself: with \<^verbatim>\<open>top_n = 2\<close>,
  three input Documents and a response of three entries, the output has three Documents,
  while the bound is 2.
\<close>

theorem output_length_bound_counterexample:
  "fst (compress_documents round_exact [0, 2, 4] ''q'' (example_state lavish_client)) =
     Inr [7, 9, 11] \<and>
   result_limit (this (example_state lavish_client)) (length [0, 2, 4 :: addr]) = 2 \<and>
   \<not> length [7, 9, 11 :: addr] \<le>
       result_limit (this (example_state lavish_client)) (length [0, 2, 4 :: addr])"
  by (simp add: example_defs lavish_client_def result_limit_def)

text \<open>
  Claim C3, amended. When \<^verbatim>\<open>compress_documents\<close> returns for a non-empty input, its
  output has exactly as many Documents as the response of the remote service has entries;
  so the output is no longer than the smaller of \<^verbatim>\<open>top_n\<close> and the input length whenever
  the response has at most that many entries.
\<close>

theorem output_length_is_response_length:
  assumes "documents \<noteq> []"
    and "fst (rerank (map Doc documents) query s) = Inr (ResultObject results)"
    and "compress_documents rnd documents query s = (Inr out, s')"
  shows "length out = length (data results) \<and>
    (length (data results) \<le> result_limit (this s) (length documents) \<longrightarrow>
       length out \<le> result_limit (this s) (length documents))"
  using compress_documents_length [OF assms] by simp

theorem output_length_is_response_length_witness:
  "[0, 2, 4] \<noteq> ([] :: addr list) \<and>
   fst (rerank (map Doc [0, 2, 4]) ''q'' (example_state sync_client)) =
     Inr (ResultObject \<lparr>data = [\<lparr>index = 2, score = 1 / 3\<rparr>, \<lparr>index = 0, score = 1 / 32\<rparr>]\<rparr>) \<and>
   fst (compress_documents round_exact [0, 2, 4] ''q'' (example_state sync_client)) = Inr [7, 9] \<and>
   length [\<lparr>index = 2, score = 1 / 3\<rparr>, \<lparr>index = 0, score = 1 / 32 :: rat\<rparr>] \<le>
     result_limit (this (example_state sync_client)) (length [0, 2, 4 :: addr]) \<and>
   length [7, 9 :: addr] \<le> result_limit (this (example_state sync_client)) (length [0, 2, 4 :: addr])"
  using output_length_is_response_length [of "[0, 2, 4]" "''q''" "example_state sync_client"
      "\<lparr>data = [\<lparr>index = 2, score = 1 / 3\<rparr>, \<lparr>index = 0, score = 1 / 32\<rparr>]\<rparr>" round_exact "[7, 9]"
      "snd (compress_documents round_exact [0, 2, 4] ''q'' (example_state sync_client))"]
  by (simp add: example_defs sync_client_def result_limit_def)

text \<open>
  Claim C4. For every query, if the input document sequence is empty, then
  \<^verbatim>\<open>compress_documents\<close> and \<^verbatim>\<open>acompress_documents\<close> return the empty sequence and
  leave the whole state as it was; in particular the request log is unchanged, so no rerank
  request is sent to the remote client.
\<close>

theorem empty_input_no_request:
  "compress_documents rnd [] query s = (Inr [], s) \<and>
   acompress_documents rnd [] query s = (Inr [], s) \<and>
   requests (snd (compress_documents rnd [] query s)) = requests s \<and>
   requests (snd (acompress_documents rnd [] query s)) = requests s"
  by (simp add: compress_documents_def acompress_documents_def)

text \<open>
  Claim C5. For a non-empty input, if the rerank call raises the exception \<open>e\<close>, then
  \<^verbatim>\<open>compress_documents\<close> raises exactly \<open>e\<close>. Exactly one request has been sent (there
  is no retry), and it is the one that raised; the compressor object (client, model, top_n,
  truncation) and the store are as they were.
\<close>

theorem remote_error_propagates:
  assumes "documents \<noteq> []"
    and "fst (rerank (map Doc documents) query s) = Inl e"
  shows "fst (compress_documents rnd documents query s) = Inl e \<and>
    this (snd (compress_documents rnd documents query s)) = this s \<and>
    docs_at (snd (compress_documents rnd documents query s)) = docs_at s \<and>
    dicts_at (snd (compress_documents rnd documents query s)) = dicts_at s \<and>
    next_addr (snd (compress_documents rnd documents query s)) = next_addr s \<and>
    (\<exists>req. requests (snd (compress_documents rnd documents query s)) = requests s @ [req] \<and>
       client (this s) req = Inl e)"
proof -
  from assms have "compress_documents rnd documents query s =
      (Inl e, snd (rerank (map Doc documents) query s))"
    by (cases "rerank (map Doc documents) query s") (auto simp: compress_documents_def)
  moreover from assms(2)
  have "\<exists>req. requests (snd (rerank (map Doc documents) query s)) = requests s @ [req] \<and>
       client (this s) req = Inl e"
    by (simp add: rerank_def Let_def)
  ultimately show ?thesis by (simp add: rerank_state)
qed

theorem remote_error_propagates_witness:
  "[0, 2, 4] \<noteq> ([] :: addr list) \<and>
   fst (rerank (map Doc [0, 2, 4]) ''q'' (example_state failing_client)) =
     Inl (RemoteError ''503 Service Unavailable'') \<and>
   fst (compress_documents round_exact [0, 2, 4] ''q'' (example_state failing_client)) =
     Inl (RemoteError ''503 Service Unavailable'') \<and>
   length (requests (snd (compress_documents round_exact [0, 2, 4] ''q''
     (example_state failing_client)))) = 1 \<and>
   this (snd (compress_documents round_exact [0, 2, 4] ''q'' (example_state failing_client))) =
     this (example_state failing_client)"
  using remote_error_propagates [of "[0, 2, 4]" "''q''" "example_state failing_client"
      "RemoteError ''503 Service Unavailable''" round_exact]
  by (simp add: example_defs failing_client_def)

text \<open>
  Claim C6: the asynchronous variant returns the same output as the synchronous one. The
  code does not: \<^verbatim>\<open>_arerank\<close> awaits the value of the very call that \<^verbatim>\<open>_rerank\<close> uses
  directly. With the synchronous client of the example, \<^verbatim>\<open>compress_documents\<close> returns
  two Documents and \<^verbatim>\<open>acompress_documents\<close> raises \<^verbatim>\<open>TypeError\<close>; with the
  asynchronous client it is \<^verbatim>\<open>compress_documents\<close> that fails.
\<close>

theorem async_variant_differs:
  "fst (compress_documents round_exact [0, 2, 4] ''q'' (example_state sync_client)) = Inr [7, 9] \<and>
   fst (acompress_documents round_exact [0, 2, 4] ''q'' (example_state sync_client)) =
     Inl TypeError \<and>
   fst (acompress_documents round_exact [0, 2, 4] ''q'' (example_state async_client)) =
     Inr [7, 9] \<and>
   fst (compress_documents round_exact [0, 2, 4] ''q'' (example_state async_client)) =
     Inl AttributeError"
  by (simp add: example_defs sync_client_def async_client_def acompress_documents_def
      arerank_def)

text \<open>
  Claim C7. \<^verbatim>\<open>compress_documents\<close> only reads its input, and what it returns shares no
  mutable object with it. Over the finer store, for a well-formed input and whatever the
  call returns:
  \<^item> every Document and every container that existed before the call is unchanged after
    it; in particular each input Document is unchanged, its metadata reaches the same
    containers as before, and each of them has the contents it had;
  \<^item> when a sequence is returned, each output Document is a new object and a copy of an
    input Document: it has the same text payload, and its metadata is the copy of the input
    metadata under a renaming of addresses (the dict itself and every container nested in
    it, at any depth), with the key \<^verbatim>\<open>relevance_score\<close> set in the copied dict;
  \<^item> every container reachable from the metadata of an output Document was allocated
    during the call and is reachable from no input Document's metadata; so overwriting any
    of these containers with anything at all leaves each input Document's metadata, at
    every depth, as it was before the call.
  (The input sequence itself is passed to the model by value and is not part of what it
  returns.)
\<close>

theorem deep_copies_share_nothing:
  assumes "closed_heap s documents"
    and "compress_documents_heap rnd documents query s = (r, s')"
  shows "(\<forall>a<h_next_doc s. h_docs_at s' a = h_docs_at s a) \<and>
    (\<forall>a<h_next_obj s. h_objs_at s' a = h_objs_at s a) \<and>
    (\<forall>d\<in>set documents.
       h_docs_at s' d = h_docs_at s d \<and>
       reach s' (metadata (h_docs_at s' d)) = reach s (metadata (h_docs_at s d)) \<and>
       (\<forall>c\<in>reach s (metadata (h_docs_at s d)). h_objs_at s' c = h_objs_at s c)) \<and>
    (\<forall>out. r = Inr out \<longrightarrow>
       (\<forall>b\<in>set out.
          h_next_doc s \<le> b \<and> b \<notin> set documents \<and>
          (\<exists>d\<in>set documents. \<exists>k v.
             page_content (h_docs_at s' b) = page_content (h_docs_at s d) \<and>
             metadata (h_docs_at s' b) = metadata (h_docs_at s d) + k \<and>
             h_objs_at s' (metadata (h_docs_at s' b)) =
               set_entry ''relevance_score'' (HFloat v)
                 (shift_obj k (h_objs_at s (metadata (h_docs_at s d)))) \<and>
             (\<forall>a<h_next_obj s. a \<noteq> metadata (h_docs_at s d) \<longrightarrow>
                h_objs_at s' (a + k) = shift_obj k (h_objs_at s a))) \<and>
          (\<forall>c\<in>reach s' (metadata (h_docs_at s' b)).
             h_next_obj s \<le> c \<and>
             (\<forall>d\<in>set documents.
                c \<notin> reach s (metadata (h_docs_at s d)) \<and>
                (\<forall>obj.
                   reach (s'\<lparr>h_objs_at := (h_objs_at s')(c := obj)\<rparr>) (metadata (h_docs_at s d)) =
                     reach s (metadata (h_docs_at s d)) \<and>
                   (\<forall>c'\<in>reach s (metadata (h_docs_at s d)).
                      h_objs_at (s'\<lparr>h_objs_at := (h_objs_at s')(c := obj)\<rparr>) c' =
                        h_objs_at s c'))))))"
proof -
  let ?n = "h_next_obj s"
  let ?nd = "h_next_doc s"
  from compress_documents_heap_cases [OF assms(2)] obtain entries t where
    t: "h_docs_at t = h_docs_at s" "h_next_doc t = h_next_doc s"
      "h_objs_at t = h_objs_at s" "h_next_obj t = h_next_obj s"
    and run: "compress_loop_heap rnd documents entries [] t = (r, s') \<or> (\<exists>e. r = Inl e) \<and> s' = t"
    by blast
  from assms(1) t have closed_t: "closed_heap t documents"
    by (simp add: closed_heap_def)
  from assms(1) have closed: "\<forall>a<?n. \<forall>c\<in>set (refs_obj (h_objs_at s a)). c < ?n"
    and inputs: "\<forall>d\<in>set documents. d < ?nd \<and> metadata (h_docs_at s d) < ?n"
    by (simp_all add: closed_heap_iff)
  have frame: "?nd \<le> h_next_doc s' \<and> ?n \<le> h_next_obj s' \<and> closed_heap s' documents \<and>
     (\<forall>a<?nd. h_docs_at s' a = h_docs_at s a) \<and> (\<forall>a<?n. h_objs_at s' a = h_objs_at s a)"
    using run
  proof
    assume "compress_loop_heap rnd documents entries [] t = (r, s')"
    from compress_loop_heap_frame [OF closed_t this] t show ?thesis by simp
  next
    assume "(\<exists>e. r = Inl e) \<and> s' = t"
    with t closed_t show ?thesis by simp
  qed
  then have docs_same: "\<forall>a<?nd. h_docs_at s' a = h_docs_at s a"
    and objs_same: "\<forall>a<?n. h_objs_at s' a = h_objs_at s a"
    by simp_all
  have inputs_same: "h_docs_at s' d = h_docs_at s d \<and>
       reach s' (metadata (h_docs_at s' d)) = reach s (metadata (h_docs_at s d)) \<and>
       (\<forall>c\<in>reach s (metadata (h_docs_at s d)). h_objs_at s' c = h_objs_at s c)"
    if d: "d \<in> set documents" for d
  proof -
    from inputs d have dn: "d < ?nd" "metadata (h_docs_at s d) < ?n" by simp_all
    with docs_same have same: "h_docs_at s' d = h_docs_at s d" by simp
    have "reach s' (metadata (h_docs_at s d)) = reach s (metadata (h_docs_at s d))"
      using closed objs_same dn(2) by (rule reach_agree)
    moreover have "h_objs_at s' c = h_objs_at s c"
      if "c \<in> reach s (metadata (h_docs_at s d))" for c
      using reach_below [OF closed that dn(2)] objs_same by simp
    ultimately show ?thesis using same by simp
  qed
  have outputs: "h_next_doc s \<le> b \<and> b \<notin> set documents \<and>
          (\<exists>d\<in>set documents. \<exists>k v.
             page_content (h_docs_at s' b) = page_content (h_docs_at s d) \<and>
             metadata (h_docs_at s' b) = metadata (h_docs_at s d) + k \<and>
             h_objs_at s' (metadata (h_docs_at s' b)) =
               set_entry ''relevance_score'' (HFloat v)
                 (shift_obj k (h_objs_at s (metadata (h_docs_at s d)))) \<and>
             (\<forall>a<h_next_obj s. a \<noteq> metadata (h_docs_at s d) \<longrightarrow>
                h_objs_at s' (a + k) = shift_obj k (h_objs_at s a))) \<and>
          (\<forall>c\<in>reach s' (metadata (h_docs_at s' b)).
             h_next_obj s \<le> c \<and>
             (\<forall>d\<in>set documents.
                c \<notin> reach s (metadata (h_docs_at s d)) \<and>
                (\<forall>obj.
                   reach (s'\<lparr>h_objs_at := (h_objs_at s')(c := obj)\<rparr>) (metadata (h_docs_at s d)) =
                     reach s (metadata (h_docs_at s d)) \<and>
                   (\<forall>c'\<in>reach s (metadata (h_docs_at s d)).
                      h_objs_at (s'\<lparr>h_objs_at := (h_objs_at s')(c := obj)\<rparr>) c' =
                        h_objs_at s c'))))"
    if r: "r = Inr out" and b: "b \<in> set out" for out b
  proof -
    from run r have loop: "compress_loop_heap rnd documents entries [] t = (Inr out, s')"
      by auto
    from compress_loop_heap_outputs [OF closed_t loop] b t obtain d k v where
      b1: "?nd \<le> b" "?n \<le> metadata (h_docs_at s' b)"
        "metadata (h_docs_at s' b) < h_next_obj s'"
      and d: "d \<in> set documents"
        "page_content (h_docs_at s' b) = page_content (h_docs_at s d)"
        "metadata (h_docs_at s' b) = metadata (h_docs_at s d) + k"
        "h_objs_at s' (metadata (h_docs_at s' b)) =
               set_entry ''relevance_score'' (HFloat v)
                 (shift_obj k (h_objs_at s (metadata (h_docs_at s d))))"
        "\<forall>a<?n. a \<noteq> metadata (h_docs_at s d) \<longrightarrow>
                h_objs_at s' (a + k) = shift_obj k (h_objs_at s a)"
      by auto
    from inputs b1(1) have notin: "b \<notin> set documents" by auto
    from compress_loop_heap_new_refs [OF closed_t loop] t
    have upper: "\<forall>a. ?n \<le> a \<and> a < h_next_obj s' \<longrightarrow>
        (\<forall>c\<in>set (refs_obj (h_objs_at s' a)). ?n \<le> c)"
      by simp
    from frame have closed': "\<forall>a<h_next_obj s'. \<forall>c\<in>set (refs_obj (h_objs_at s' a)). c < h_next_obj s'"
      by (simp add: closed_heap_iff)
    have fresh: "?n \<le> c \<and>
             (\<forall>d\<in>set documents.
                c \<notin> reach s (metadata (h_docs_at s d)) \<and>
                (\<forall>obj.
                   reach (s'\<lparr>h_objs_at := (h_objs_at s')(c := obj)\<rparr>) (metadata (h_docs_at s d)) =
                     reach s (metadata (h_docs_at s d)) \<and>
                   (\<forall>c'\<in>reach s (metadata (h_docs_at s d)).
                      h_objs_at (s'\<lparr>h_objs_at := (h_objs_at s')(c := obj)\<rparr>) c' =
                        h_objs_at s c')))"
      if c: "c \<in> reach s' (metadata (h_docs_at s' b))" for c
    proof -
      from reach_above [OF upper closed' c b1(2,3)] have cn: "?n \<le> c" by simp
      have "c \<notin> reach s (metadata (h_docs_at s e)) \<and>
                (\<forall>obj.
                   reach (s'\<lparr>h_objs_at := (h_objs_at s')(c := obj)\<rparr>) (metadata (h_docs_at s e)) =
                     reach s (metadata (h_docs_at s e)) \<and>
                   (\<forall>c'\<in>reach s (metadata (h_docs_at s e)).
                      h_objs_at (s'\<lparr>h_objs_at := (h_objs_at s')(c := obj)\<rparr>) c' =
                        h_objs_at s c'))"
        if e: "e \<in> set documents" for e
      proof -
        from inputs e have en: "metadata (h_docs_at s e) < ?n" by simp
        have below: "c' < ?n" if "c' \<in> reach s (metadata (h_docs_at s e))" for c'
          using reach_below [OF closed that en] .
        have "c \<notin> reach s (metadata (h_docs_at s e))"
        proof
          assume "c \<in> reach s (metadata (h_docs_at s e))"
          then have "c < ?n" by (rule below)
          with cn show False by simp
        qed
        moreover have "reach (s'\<lparr>h_objs_at := (h_objs_at s')(c := obj)\<rparr>) (metadata (h_docs_at s e)) =
                     reach s (metadata (h_docs_at s e)) \<and>
                   (\<forall>c'\<in>reach s (metadata (h_docs_at s e)).
                      h_objs_at (s'\<lparr>h_objs_at := (h_objs_at s')(c := obj)\<rparr>) c' =
                        h_objs_at s c')" for obj
        proof -
          let ?u = "s'\<lparr>h_objs_at := (h_objs_at s')(c := obj)\<rparr>"
          from cn objs_same have agree: "\<forall>a<?n. h_objs_at ?u a = h_objs_at s a"
            by simp
          have "reach ?u (metadata (h_docs_at s e)) = reach s (metadata (h_docs_at s e))"
            using closed agree en by (rule reach_agree)
          moreover have "h_objs_at ?u c' = h_objs_at s c'"
            if "c' \<in> reach s (metadata (h_docs_at s e))" for c'
            using below [OF that] agree by simp
          ultimately show ?thesis by simp
        qed
        ultimately show ?thesis by simp
      qed
      with cn show ?thesis by simp
    qed
    from b1(1) notin d fresh show ?thesis by blast
  qed
  from docs_same objs_same inputs_same outputs show ?thesis by blast
qed

theorem deep_copies_share_nothing_witness:
  "closed_heap (example_heap sync_client) [0, 1, 2] \<and>
   fst (compress_documents_heap round_exact [0, 1, 2] ''q'' (example_heap sync_client)) =
     Inr [3, 4] \<and>
   h_objs_at (example_heap sync_client) 0 =
     HDict [(''source'', HStr ''a.txt''), (''tags'', HRef 3)] \<and>
   h_objs_at (example_heap sync_client) 3 = HList [HStr ''x'', HStr ''y''] \<and>
   metadata (h_docs_at (snd (compress_documents_heap round_exact [0, 1, 2] ''q''
      (example_heap sync_client))) 4) = 8 \<and>
   h_objs_at (snd (compress_documents_heap round_exact [0, 1, 2] ''q''
      (example_heap sync_client))) 8 =
     HDict [(''source'', HStr ''a.txt''), (''tags'', HRef 11),
            (''relevance_score'', HFloat (39 / 1250))] \<and>
   h_objs_at (snd (compress_documents_heap round_exact [0, 1, 2] ''q''
      (example_heap sync_client))) 11 = HList [HStr ''x'', HStr ''y''] \<and>
   h_objs_at (snd (compress_documents_heap round_exact [0, 1, 2] ''q''
      (example_heap sync_client))) 0 =
     HDict [(''source'', HStr ''a.txt''), (''tags'', HRef 3)] \<and>
   h_objs_at (snd (compress_documents_heap round_exact [0, 1, 2] ''q''
      (example_heap sync_client))) 3 = HList [HStr ''x'', HStr ''y'']"
proof -
  let ?s = "example_heap sync_client"
  let ?run = "compress_documents_heap round_exact [0, 1, 2] ''q'' ?s"
  have closed: "closed_heap ?s [0, 1, 2]"
    by (rule closed_example_heap)
  have run: "?run = (Inr [3, 4], snd ?run)"
    using example_heap_fst by (simp add: prod_eq_iff)
  have n: "h_next_obj ?s = 4"
    by (simp add: example_heap_def)
  from deep_copies_share_nothing [OF closed run]
  have "\<forall>a<h_next_obj ?s. h_objs_at (snd ?run) a = h_objs_at ?s a"
    by (rule conjunct1 [OF conjunct2])
  then have old: "h_objs_at (snd ?run) 0 = h_objs_at ?s 0" "h_objs_at (snd ?run) 3 = h_objs_at ?s 3"
    by (simp_all add: n)
  have before: "h_objs_at ?s 0 = HDict [(''source'', HStr ''a.txt''), (''tags'', HRef 3)]"
    "h_objs_at ?s 3 = HList [HStr ''x'', HStr ''y'']"
    by (simp_all add: example_heap_def)
  from closed example_heap_fst example_heap_copy old before show ?thesis
    by (simp only: simp_thms)
qed

text \<open>
  Claim C8. The request that \<^verbatim>\<open>_rerank\<close> sends carries the configured model name, the
  query, the texts in input order (the text payload of a Document, a raw string as it is),
  the configured \<^verbatim>\<open>top_n\<close>, \<^verbatim>\<open>return_documents = True\<close> and the configured truncation
  under the key \<^verbatim>\<open>truncate\<close>. For a non-empty input \<^verbatim>\<open>compress_documents\<close> sends
  exactly one request, which is this one for its input Documents.
\<close>

theorem rerank_request_contents:
  "requests (snd (rerank mixed query s)) = requests s @
     [\<lparr>req_model = model (this s),
       req_query = query,
       req_documents =
         map (\<lambda>doc. case doc of Doc a \<Rightarrow> page_content (docs_at s a) | Str t \<Rightarrow> t) mixed,
       req_top_n = top_n (this s),
       req_return_documents = True,
       req_parameters = [(''truncate'', truncation (this s))]\<rparr>] \<and>
   (documents \<noteq> [] \<longrightarrow>
      requests (snd (compress_documents rnd documents query s)) = requests s @
        [\<lparr>req_model = model (this s),
          req_query = query,
          req_documents = map (\<lambda>a. page_content (docs_at s a)) documents,
          req_top_n = top_n (this s),
          req_return_documents = True,
          req_parameters = [(''truncate'', truncation (this s))]\<rparr>])"
  by (simp add: compress_documents_requests) (simp add: rerank_def Let_def comp_def)

theorem rerank_request_contents_witness:
  "requests (snd (rerank [Str ''raw text'', Doc 2] ''q'' (example_state sync_client))) =
     [\<lparr>req_model = ''pinecone-rerank-v0'', req_query = ''q'',
       req_documents = [''raw text'', ''beta''], req_top_n = Some 2,
       req_return_documents = True, req_parameters = [(''truncate'', ''END'')]\<rparr>] \<and>
   [0, 2, 4] \<noteq> ([] :: addr list) \<and>
   requests (snd (compress_documents round_exact [0, 2, 4] ''q''
       (example_state sync_client))) =
     [\<lparr>req_model = ''pinecone-rerank-v0'', req_query = ''q'',
       req_documents = [''alpha'', ''beta'', ''gamma''], req_top_n = Some 2,
       req_return_documents = True, req_parameters = [(''truncate'', ''END'')]\<rparr>]"
  using rerank_request_contents [of "[Str ''raw text'', Doc 2]" "''q''"
      "example_state sync_client" "[0, 2, 4]" round_exact]
  by (simp add: example_state_def)

text \<open>
  Claim C9. \<^verbatim>\<open>compress_documents\<close> indexes the input with the index the remote service
  reports and does not validate it. For a non-empty input and a response all of whose
  indices are positions of the input, the call returns a result; for a response with an
  entry whose index is the input length or more, the call raises \<^verbatim>\<open>IndexError\<close> and
  returns nothing.
\<close>

theorem index_not_validated:
  assumes "documents \<noteq> []"
    and "fst (rerank (map Doc documents) query s) = Inr (ResultObject results)"
  shows "((\<forall>e\<in>set (data results). 0 \<le> index e \<and> index e < int (length documents)) \<longrightarrow>
       (\<exists>out. fst (compress_documents rnd documents query s) = Inr out)) \<and>
    ((\<exists>e\<in>set (data results). int (length documents) \<le> index e) \<longrightarrow>
       fst (compress_documents rnd documents query s) = Inl IndexError)"
proof -
  let ?s1 = "snd (rerank (map Doc documents) query s)"
  have run: "compress_documents rnd documents query s =
      compress_loop rnd documents (data results) [] ?s1"
    using assms by (rule compress_documents_run)
  have "\<exists>out. fst (compress_documents rnd documents query s) = Inr out"
    if "\<forall>e\<in>set (data results). 0 \<le> index e \<and> index e < int (length documents)"
  proof -
    from that
    have "list_all (\<lambda>e. 0 \<le> index e \<and> index e < int (length documents)) (data results)"
      by (simp add: list_all_iff)
    from compress_loop_succeeds [OF this, of rnd "[]" ?s1] run show ?thesis by auto
  qed
  moreover have "fst (compress_documents rnd documents query s) = Inl IndexError"
    if "\<exists>e\<in>set (data results). int (length documents) \<le> index e"
  proof -
    from that have "list_ex (\<lambda>e. int (length documents) \<le> index e) (data results)"
      by (simp add: list_ex_iff)
    from compress_loop_fails [OF this, of rnd "[]" ?s1] run show ?thesis by simp
  qed
  ultimately show ?thesis by blast
qed

theorem index_not_validated_witness:
  "[0, 2, 4] \<noteq> ([] :: addr list) \<and>
   fst (rerank (map Doc [0, 2, 4]) ''q'' (example_state sync_client)) =
     Inr (ResultObject \<lparr>data = [\<lparr>index = 2, score = 1 / 3\<rparr>, \<lparr>index = 0, score = 1 / 32\<rparr>]\<rparr>) \<and>
   fst (compress_documents round_exact [0, 2, 4] ''q'' (example_state sync_client)) = Inr [7, 9] \<and>
   fst (rerank (map Doc [0, 2, 4]) ''q'' (example_state stray_client)) =
     Inr (ResultObject \<lparr>data = [\<lparr>index = 1, score = 1 / 3\<rparr>, \<lparr>index = 3, score = 1 / 32\<rparr>]\<rparr>) \<and>
   int (length [0, 2, 4 :: addr]) \<le> index \<lparr>index = 3, score = 1 / 32 :: rat\<rparr> \<and>
   fst (compress_documents round_exact [0, 2, 4] ''q'' (example_state stray_client)) =
     Inl IndexError"
  using index_not_validated [of "[0, 2, 4]" "''q''" "example_state sync_client"
      "\<lparr>data = [\<lparr>index = 2, score = 1 / 3\<rparr>, \<lparr>index = 0, score = 1 / 32\<rparr>]\<rparr>" round_exact]
    index_not_validated [of "[0, 2, 4]" "''q''" "example_state stray_client"
      "\<lparr>data = [\<lparr>index = 1, score = 1 / 3\<rparr>, \<lparr>index = 3, score = 1 / 32\<rparr>]\<rparr>" round_exact]
  by (simp add: example_defs sync_client_def stray_client_def)

text \<open>
  Claim C10. When the metadata of an input Document already has the key
  \<^verbatim>\<open>relevance_score\<close>, the call still returns normally, and in the corresponding output
  Document that key holds the newly computed rounded score. The key is not duplicated (the
  output metadata has the same keys as the input metadata), and an original value other
  than the new score occurs nowhere under that key in the output.
\<close>

theorem existing_score_is_replaced:
  assumes "documents \<noteq> []" and "allocated s documents"
    and "fst (rerank (map Doc documents) query s) = Inr (ResultObject results)"
    and "compress_documents rnd documents query s = (Inr out, s')"
    and "i < length (data results)"
    and "getitem documents (index (data results ! i)) = Inr doc"
    and "distinct (map fst (metadata_of s doc))"
    and "(''relevance_score'', old) \<in> set (metadata_of s doc)"
  shows "map_of (metadata_of s' (out ! i)) ''relevance_score'' =
       Some (PyFloat (rnd (score (data results ! i)) 4)) \<and>
     map fst (metadata_of s' (out ! i)) = map fst (metadata_of s doc) \<and>
     (old \<noteq> PyFloat (rnd (score (data results ! i)) 4) \<longrightarrow>
        (''relevance_score'', old) \<notin> set (metadata_of s' (out ! i)))"
proof -
  from compress_documents_entry [OF assms(1-5)] assms(6)
  have upd: "metadata_of s' (out ! i) =
         AList.update ''relevance_score'' (PyFloat (rnd (score (data results ! i)) 4))
           (metadata_of s doc)"
    by auto
  from assms(8) have "''relevance_score'' \<in> fst ` set (metadata_of s doc)"
    by force
  then have "map fst (metadata_of s' (out ! i)) = map fst (metadata_of s doc)"
    by (simp add: upd update_present_keys)
  moreover have "map_of (metadata_of s' (out ! i)) ''relevance_score'' =
       Some (PyFloat (rnd (score (data results ! i)) 4))"
    by (simp add: upd update_conv')
  moreover have "old \<noteq> PyFloat (rnd (score (data results ! i)) 4) \<longrightarrow>
        (''relevance_score'', old) \<notin> set (metadata_of s' (out ! i))"
    using update_drops_old [OF assms(7)] by (auto simp: upd)
  ultimately show ?thesis by blast
qed

theorem existing_score_is_replaced_witness:
  "[0, 2, 4] \<noteq> ([] :: addr list) \<and> allocated (example_state sync_client) [0, 2, 4] \<and>
   fst (rerank (map Doc [0, 2, 4]) ''q'' (example_state sync_client)) =
     Inr (ResultObject \<lparr>data = [\<lparr>index = 2, score = 1 / 3\<rparr>, \<lparr>index = 0, score = 1 / 32\<rparr>]\<rparr>) \<and>
   fst (compress_documents round_exact [0, 2, 4] ''q'' (example_state sync_client)) = Inr [7, 9] \<and>
   (0 :: nat) < length [\<lparr>index = 2, score = 1 / 3\<rparr>, \<lparr>index = 0, score = 1 / 32 :: rat\<rparr>] \<and>
   getitem [0, 2, 4 :: addr] 2 = Inr 4 \<and>
   distinct (map fst (metadata_of (example_state sync_client) 4)) \<and>
   (''relevance_score'', PyFloat (9 / 10)) \<in> set (metadata_of (example_state sync_client) 4) \<and>
   map_of (metadata_of (snd (compress_documents round_exact [0, 2, 4] ''q''
      (example_state sync_client))) 7) ''relevance_score'' = Some (PyFloat (3333 / 10000)) \<and>
   (''relevance_score'', PyFloat (9 / 10)) \<notin> set (metadata_of (snd (compress_documents
      round_exact [0, 2, 4] ''q'' (example_state sync_client))) 7)"
  using existing_score_is_replaced [of "[0, 2, 4]" "example_state sync_client" "''q''"
      "\<lparr>data = [\<lparr>index = 2, score = 1 / 3\<rparr>, \<lparr>index = 0, score = 1 / 32\<rparr>]\<rparr>" round_exact "[7, 9]"
      "snd (compress_documents round_exact [0, 2, 4] ''q'' (example_state sync_client))" 0 4
      "PyFloat (9 / 10)"]
  by (simp add: example_defs sync_client_def)

end
